theory Spec2Isabelle
  imports Main "HOL-Library.Sublist"
begin

section \<open>Battery report extraction: a shallow embedding of battery\_health.py\<close>

text \<open>
  The extraction functions of \<^verbatim>\<open>battery_health.py\<close> are embedded as HOL functions.
  A Python \<^verbatim>\<open>str\<close> is a \<^typ>\<open>string\<close>; a \<^typ>\<open>char\<close> stands for the code point
  of the same number, so the strings covered are those whose code points are below 256.
  Python's \<^verbatim>\<open>int\<close> is \<^typ>\<open>int\<close>. An exception is a value \<open>Inl e\<close> of the result
  type \<open>error + 'a\<close>; the constructors of \<open>error\<close> are the exception classes the
  interpreter raises at the places modelled. The failure kinds of the specification
  name these: a missing table or section is the IndexError of an index into the result
  of a \<^verbatim>\<open>split\<close>, missing digits are the ValueError of \<^verbatim>\<open>int\<close>, an unrecognized date
  format is the UnboundLocalError of a result that was never bound.
\<close>

subsection \<open>Exceptions\<close>

datatype error = IndexError | ValueError | UnboundLocalError | OverflowError

text \<open>Sequencing of a computation that may raise.\<close>

definition and_then :: "error + 'a \<Rightarrow> ('a \<Rightarrow> error + 'b) \<Rightarrow> error + 'b" where
  "and_then m f = (case m of Inl e \<Rightarrow> Inl e | Inr x \<Rightarrow> f x)"

text \<open>\<^verbatim>\<open>xs[i]\<close> for an index \<open>i \<ge> 0\<close>: IndexError when out of range.\<close>

definition py_index :: "'a list \<Rightarrow> nat \<Rightarrow> error + 'a" where
  "py_index xs i = (if i < length xs then Inr (xs ! i) else Inl IndexError)"

subsection \<open>The string methods used by the source\<close>

text \<open>
  \<open>find_first sub s\<close> is the index of the leftmost occurrence of \<open>sub\<close> in \<open>s\<close>;
  \<^verbatim>\<open>s.find(sub)\<close> is that index, or \<open>-1\<close> when there is none.
\<close>

fun find_first :: "'a list \<Rightarrow> 'a list \<Rightarrow> nat option" where
  "find_first sub [] = (if sub = [] then Some 0 else None)"
| "find_first sub (c # cs) =
     (if prefix sub (c # cs) then Some 0 else map_option Suc (find_first sub cs))"

definition py_find :: "string \<Rightarrow> string \<Rightarrow> int" where
  "py_find s sub = (case find_first sub s of None \<Rightarrow> - 1 | Some k \<Rightarrow> int k)"

lemma find_first_Some:
  "find_first sub s = Some k \<Longrightarrow> k + length sub \<le> length s \<and> prefix sub (drop k s)"
proof (induction s arbitrary: k)
  case Nil
  then show ?case by (auto split: if_splits)
next
  case (Cons c cs)
  show ?case
  proof (cases "prefix sub (c # cs)")
    case True
    with Cons.prems have "k = 0" by simp
    with True prefix_length_le [of sub "c # cs"] show ?thesis by simp
  next
    case False
    with Cons.prems obtain j where j: "find_first sub cs = Some j" "k = Suc j"
      by auto
    from Cons.IH [OF j(1)] j(2) show ?thesis by simp
  qed
qed

lemma find_first_shrinks:
  "sep \<noteq> [] \<Longrightarrow> find_first sep s = Some k \<Longrightarrow> length s - (k + length sep) < length s"
  using find_first_Some [of sep s k] by (cases sep) auto

text \<open>
  \<^verbatim>\<open>s.split(sep)\<close>: cut at the leftmost occurrence of the separator and go on after it.
  Python raises ValueError for an empty separator; every call of the source passes a
  non-empty literal, and the model returns the string uncut in that case.
\<close>

function py_split :: "string \<Rightarrow> string \<Rightarrow> string list" where
  "py_split sep s =
     (if sep = [] then [s]
      else case find_first sep s of
             None \<Rightarrow> [s]
           | Some k \<Rightarrow> take k s # py_split sep (drop (k + length sep) s))"
  by pat_completeness auto
termination
  by (relation "measure (\<lambda>(sep, s). length s)") (auto simp: find_first_shrinks)

declare py_split.simps [simp del]

text \<open>
  \<^verbatim>\<open>s.replace(old, new)\<close>: every non-overlapping occurrence, left to right. With an
  empty \<open>old\<close> Python puts \<open>new\<close> before every character and at the end.
\<close>

function py_replace :: "string \<Rightarrow> string \<Rightarrow> string \<Rightarrow> string" where
  "py_replace old new s =
     (if old = [] then new @ concat (map (\<lambda>c. c # new) s)
      else case find_first old s of
             None \<Rightarrow> s
           | Some k \<Rightarrow> take k s @ new @ py_replace old new (drop (k + length old) s))"
  by pat_completeness auto
termination
  by (relation "measure (\<lambda>(old, new, s). length s)") (auto simp: find_first_shrinks)

declare py_replace.simps [simp del]

text \<open>\<^verbatim>\<open>s.count(sub)\<close>: the number of non-overlapping occurrences.\<close>

function py_count :: "string \<Rightarrow> string \<Rightarrow> nat" where
  "py_count sub s =
     (if sub = [] then length s + 1
      else case find_first sub s of
             None \<Rightarrow> 0
           | Some k \<Rightarrow> Suc (py_count sub (drop (k + length sub) s)))"
  by pat_completeness auto
termination
  by (relation "measure (\<lambda>(sub, s). length s)") (auto simp: find_first_shrinks)

declare py_count.simps [simp del]

subsection \<open>The tokenizer: \_\_extract\_html\_table and \_\_extract\_row\_data\<close>

text \<open>\<^verbatim>\<open>s[s.find(">") + 1 :]\<close>: the text after the first \<open>>\<close>, all of it when there is none.\<close>

definition after_gt :: "string \<Rightarrow> string" where
  "after_gt s = drop (nat (py_find s ''>'' + 1)) s"

text \<open>
  \<^verbatim>\<open>
  data = row.split("<td")
  for i in range(len(data)):
      td_end = data[i].find(">")
      data[i] = data[i][td_end + 1 :]
      data[i] = data[i].replace("</td>", "")
  data = data[1:]
  \<close>
\<close>

definition extract_row_data :: "string \<Rightarrow> string list" where
  "extract_row_data row =
     drop 1 (map (\<lambda>d. py_replace ''</td>'' [] (after_gt d)) (py_split ''<td'' row))"

text \<open>The four \<^verbatim>\<open>replace\<close> calls that clean the text (lines 341 to 344).\<close>

definition clean_text :: "string \<Rightarrow> string" where
  "clean_text html_text =
     py_replace ''<trstyle'' []
       (py_replace [CHR 0x0A] []
         (py_replace [CHR 0x0D] []
           (py_replace '' '' [] html_text)))"

text \<open>
  Lines 347 and 348:
  \<^verbatim>\<open>
  table = html_text.split("<table>")[1]
  table = table.split("</table>")[0]
  \<close>
\<close>

definition table_content :: "string \<Rightarrow> error + string" where
  "table_content html_text =
     and_then (py_index (py_split ''<table>'' (clean_text html_text)) 1)
       (\<lambda>table. py_index (py_split ''</table>'' table) 0)"

text \<open>
  Lines 351 to 361: split on \<^verbatim>\<open><tr\<close>, drop the first piece, and for every other piece
  cut the rest of the tag, keep what precedes \<^verbatim>\<open></tr>\<close> and split it into cells.
\<close>

definition extract_row :: "string \<Rightarrow> error + string list" where
  "extract_row piece =
     and_then (py_index (py_split ''</tr>'' (after_gt piece)) 0)
       (\<lambda>row. Inr (extract_row_data row))"

fun map_err :: "('a \<Rightarrow> error + 'b) \<Rightarrow> 'a list \<Rightarrow> error + 'b list" where
  "map_err f [] = Inr []"
| "map_err f (x # xs) =
     (case f x of
        Inl e \<Rightarrow> Inl e
      | Inr y \<Rightarrow> (case map_err f xs of Inl e \<Rightarrow> Inl e | Inr ys \<Rightarrow> Inr (y # ys)))"

definition extract_html_table :: "string \<Rightarrow> error + string list list" where
  "extract_html_table html_text =
     and_then (table_content html_text)
       (\<lambda>table. map_err extract_row (drop 1 (py_split ''<tr'' table)))"

subsection \<open>Integers from text: int() and \_\_str\_to\_int\<close>

text \<open>
  \<^verbatim>\<open>str.isdigit\<close> on the code points below 256: the ten decimal digits and the
  superscripts two, three and one (U+00B2, U+00B3, U+00B9), which are digits for
  \<^verbatim>\<open>isdigit\<close> but not decimal digits.
\<close>

definition is_decimal :: "char \<Rightarrow> bool" where
  "is_decimal c = (48 \<le> (of_char c :: nat) \<and> (of_char c :: nat) \<le> 57)"

definition py_isdigit :: "char \<Rightarrow> bool" where
  "py_isdigit c = (is_decimal c \<or> c = CHR 0xB2 \<or> c = CHR 0xB3 \<or> c = CHR 0xB9)"

definition digit_val :: "char \<Rightarrow> int" where
  "digit_val c = int (of_char c) - 48"

text \<open>The value of a string of decimal digits, most significant digit first.\<close>

definition dec_value :: "string \<Rightarrow> int" where
  "dec_value ds = foldl (\<lambda>acc c. 10 * acc + digit_val c) 0 ds"

text \<open>
  \<^verbatim>\<open>int(s)\<close> for a string, base 10: surrounding whitespace is skipped (tab to carriage
  return, space, U+0085, U+00A0), then an optional sign, then decimal digits, single
  underscores allowed between digits; anything else is a ValueError. The integers are
  unbounded. The model has no limit on the number of digits: an interpreter that limits
  the conversion (4300 digits by default, from CPython 3.11 on and in the patched
  earlier releases) raises a ValueError on a longer string of digits, where the model
  returns the value.
\<close>

definition int_space :: "char \<Rightarrow> bool" where
  "int_space c =
     ((9 \<le> (of_char c :: nat) \<and> (of_char c :: nat) \<le> 13) \<or> c = CHR '' '' \<or> c = CHR 0x85 \<or> c = CHR 0xA0)"

fun digits_ok :: "string \<Rightarrow> bool" where
  "digits_ok [] = False"
| "digits_ok [c] = is_decimal c"
| "digits_ok (c # d # r) =
     (is_decimal c \<and> (if d = CHR ''_'' then digits_ok r else digits_ok (d # r)))"

definition py_int :: "string \<Rightarrow> error + int" where
  "py_int s =
     (let t = rev (dropWhile int_space (rev (dropWhile int_space s)));
          signed = (t \<noteq> [] \<and> (hd t = CHR ''-'' \<or> hd t = CHR ''+''));
          body = (if signed then tl t else t);
          v = dec_value (filter (\<lambda>c. c \<noteq> CHR ''_'') body)
      in if digits_ok body
         then Inr (if t \<noteq> [] \<and> hd t = CHR ''-'' then - v else v)
         else Inl ValueError)"

text \<open>
  \<^verbatim>\<open>
  integer_string = ""
  for i in range(len(string)):
      if string[i].isdigit():
          integer_string += string[i]
  integer = int(integer_string)
  \<close>
\<close>

definition str_to_int :: "string \<Rightarrow> error + int" where
  "str_to_int string = py_int (filter py_isdigit string)"

subsection \<open>Dates and durations of the datetime module\<close>

record date =
  year :: int
  month :: int
  day :: int

definition is_leap :: "int \<Rightarrow> bool" where
  "is_leap y = (y mod 4 = 0 \<and> (y mod 100 \<noteq> 0 \<or> y mod 400 = 0))"

definition days_before_year :: "int \<Rightarrow> int" where
  "days_before_year y = (y - 1) * 365 + (y - 1) div 4 - (y - 1) div 100 + (y - 1) div 400"

definition days_in_month :: "int \<Rightarrow> int \<Rightarrow> int" where
  "days_in_month y m =
     (if m = 2 \<and> is_leap y then 29
      else [31, 28, 31, 30, 31, 30, 31, 31, 30, 31, 30, 31] ! nat (m - 1))"

definition days_before_month :: "int \<Rightarrow> int \<Rightarrow> int" where
  "days_before_month y m =
     [0, 31, 59, 90, 120, 151, 181, 212, 243, 273, 304, 334] ! nat (m - 1)
       + (if 2 < m \<and> is_leap y then 1 else 0)"

text \<open>\<^verbatim>\<open>date.toordinal()\<close>: 1 January of year 1 is day 1.\<close>

definition toordinal :: "date \<Rightarrow> int" where
  "toordinal d = days_before_year (year d) + days_before_month (year d) (month d) + day d"

text \<open>
  \<^verbatim>\<open>date.fromordinal(n)\<close>, as the datetime module computes it: the number of whole
  400-year, 100-year, 4-year and 1-year cycles before the day, then the month from an
  estimate that is corrected when it is too large.
\<close>

definition month_day :: "bool \<Rightarrow> int \<Rightarrow> int \<times> int" where
  "month_day leapyear n =
     (let m = (n + 50) div 32;
          preceding = [0, 31, 59, 90, 120, 151, 181, 212, 243, 273, 304, 334] ! nat (m - 1)
                        + (if 2 < m \<and> leapyear then 1 else 0)
      in if n < preceding
         then
           let m' = m - 1;
               preceding' = preceding
                 - ((if m' = 2 \<and> leapyear then 29
                     else [31, 28, 31, 30, 31, 30, 31, 31, 30, 31, 30, 31] ! nat (m' - 1)))
           in (m', n - preceding' + 1)
         else (m, n - preceding + 1))"

definition fromordinal :: "int \<Rightarrow> date" where
  "fromordinal n0 =
     (let n = n0 - 1;
          n400 = n div 146097; n = n mod 146097;
          n100 = n div 36524; n = n mod 36524;
          n4 = n div 1461; n = n mod 1461;
          n1 = n div 365; n = n mod 365;
          y = n400 * 400 + 1 + n100 * 100 + n4 * 4 + n1
      in if n1 = 4 \<or> n100 = 4 then \<lparr>year = y - 1, month = 12, day = 31\<rparr>
         else
           let (m, d) = month_day (n1 = 3 \<and> (n4 \<noteq> 24 \<or> n100 = 3)) n
           in \<lparr>year = y, month = m, day = d\<rparr>)"

text \<open>
  A \<^verbatim>\<open>timedelta\<close> is a whole number of microseconds whose number of whole days has
  magnitude at most 999999999; the constructor raises OverflowError beyond.
\<close>

datatype timedelta = Timedelta (microseconds_total: int)

definition td_days :: "timedelta \<Rightarrow> int" where
  "td_days t = microseconds_total t div 86400000000"

definition mk_timedelta :: "int \<Rightarrow> error + timedelta" where
  "mk_timedelta us =
     (if \<bar>us div 86400000000\<bar> \<le> 999999999 then Inr (Timedelta us) else Inl OverflowError)"

definition timedelta_of_days :: "int \<Rightarrow> error + timedelta" where
  "timedelta_of_days n = mk_timedelta (n * 86400000000)"

definition timedelta_of_seconds :: "int \<Rightarrow> error + timedelta" where
  "timedelta_of_seconds n = mk_timedelta (n * 1000000)"

definition td_add :: "timedelta \<Rightarrow> timedelta \<Rightarrow> error + timedelta" where
  "td_add a b = mk_timedelta (microseconds_total a + microseconds_total b)"

text \<open>Division of a timedelta by an integer rounds to the nearest microsecond, ties to even.\<close>

definition divide_and_round :: "int \<Rightarrow> int \<Rightarrow> int" where
  "divide_and_round a b =
     (let q = a div b; r = 2 * (a mod b);
          greater_than_half = (if 0 < b then b < r else r < b)
      in if greater_than_half \<or> (r = b \<and> q mod 2 = 1) then q + 1 else q)"

definition td_truediv :: "timedelta \<Rightarrow> int \<Rightarrow> error + timedelta" where
  "td_truediv a n = mk_timedelta (divide_and_round (microseconds_total a) n)"

text \<open>\<^verbatim>\<open>date2 - date1\<close> and \<^verbatim>\<open>date + timedelta\<close>; the sum uses only the whole days.\<close>

definition date_sub :: "date \<Rightarrow> date \<Rightarrow> error + timedelta" where
  "date_sub d2 d1 = timedelta_of_days (toordinal d2 - toordinal d1)"

definition date_add :: "date \<Rightarrow> timedelta \<Rightarrow> error + date" where
  "date_add d t =
     (let o' = toordinal d + td_days t
      in if 0 < o' \<and> o' \<le> 3652059 then Inr (fromordinal o') else Inl OverflowError)"

text \<open>
  \<^verbatim>\<open>int(td.total_seconds() / 60 / 60)\<close>. The source computes the quotient in floating
  point. A timedelta is below \<open>8.64 * 10^13\<close> seconds in magnitude, so the conversion of a
  whole number of seconds to a float is exact, and the error of the two rounded
  divisions (relative \<open>2^-52\<close>, below \<open>10^-5\<close> hours in absolute terms) cannot reach
  the next multiple of \<open>1/3600\<close>: the integer part is that of the exact quotient.
  \<^verbatim>\<open>int\<close> truncates toward zero.
\<close>

definition trunc_div :: "int \<Rightarrow> int \<Rightarrow> int" where
  "trunc_div a b = (if 0 \<le> a then a div b else - ((- a) div b))"

definition hours_int :: "timedelta \<Rightarrow> int" where
  "hours_int t = trunc_div (microseconds_total t) (1000000 * 60 * 60)"

subsection \<open>datetime.strptime with the format \%Y-\%m-\%d\<close>

text \<open>
  The format compiles to the regular expression
  \<^verbatim>\<open>(\d\d\d\d)-(1[0-2]|0[1-9]|[1-9])-(3[0-1]|[1-2]\d|0[1-9]|[1-9]| [1-9])\<close>,
  matched at the start of the string; text left over is an error, and so are a year 0
  and a day beyond the end of the month.
\<close>

definition in_digits :: "char \<Rightarrow> nat \<Rightarrow> nat \<Rightarrow> bool" where
  "in_digits c lo hi = (48 + lo \<le> (of_char c :: nat) \<and> (of_char c :: nat) \<le> 48 + hi)"

fun parse_month :: "string \<Rightarrow> (int \<times> string) option" where
  "parse_month (a # b # c # rest) =
     (if a = CHR ''1'' \<and> in_digits b 0 2 \<and> c = CHR ''-'' then Some (10 + digit_val b, rest)
      else if a = CHR ''0'' \<and> in_digits b 1 9 \<and> c = CHR ''-'' then Some (digit_val b, rest)
      else if in_digits a 1 9 \<and> b = CHR ''-'' then Some (digit_val a, c # rest)
      else None)"
| "parse_month [a, b] = (if in_digits a 1 9 \<and> b = CHR ''-'' then Some (digit_val a, []) else None)"
| "parse_month [a] = None"
| "parse_month [] = None"

fun parse_day :: "string \<Rightarrow> (int \<times> string) option" where
  "parse_day (a # b # rest) =
     (if a = CHR ''3'' \<and> in_digits b 0 1 then Some (30 + digit_val b, rest)
      else if in_digits a 1 2 \<and> in_digits b 0 9 then Some (10 * digit_val a + digit_val b, rest)
      else if a = CHR ''0'' \<and> in_digits b 1 9 then Some (digit_val b, rest)
      else if in_digits a 1 9 then Some (digit_val a, b # rest)
      else if a = CHR '' '' \<and> in_digits b 1 9 then Some (digit_val b, rest)
      else None)"
| "parse_day [a] = (if in_digits a 1 9 then Some (digit_val a, []) else None)"
| "parse_day [] = None"

fun parse_year :: "string \<Rightarrow> (int \<times> string) option" where
  "parse_year (a # b # c # d # e # rest) =
     (if in_digits a 0 9 \<and> in_digits b 0 9 \<and> in_digits c 0 9 \<and> in_digits d 0 9 \<and> e = CHR ''-''
      then Some (dec_value [a, b, c, d], rest) else None)"
| "parse_year _ = None"

definition strptime_ymd :: "string \<Rightarrow> error + date" where
  "strptime_ymd s =
     (case parse_year s of
        None \<Rightarrow> Inl ValueError
      | Some (y, r1) \<Rightarrow>
          (case parse_month r1 of
             None \<Rightarrow> Inl ValueError
           | Some (m, r2) \<Rightarrow>
               (case parse_day r2 of
                  None \<Rightarrow> Inl ValueError
                | Some (d, r3) \<Rightarrow>
                    if r3 \<noteq> [] \<or> y < 1 \<or> days_in_month y m < d then Inl ValueError
                    else Inr \<lparr>year = y, month = m, day = d\<rparr>)))"

subsection \<open>\_\_extract\_date\<close>

text \<open>
  \<^verbatim>\<open>
  dash_count = date_str.count("-")
  if dash_count == 2:
      date = datetime.strptime(date_str, "%Y-%m-%d").date()
  elif dash_count == 5:
      date_1 = datetime.strptime(date_str[:10], "%Y-%m-%d").date()
      date_2 = datetime.strptime(date_str[11:21], "%Y-%m-%d").date()
      date = date_1 + (date_2 - date_1) / 2
  return date
  \<close>
  With any other count the name \<^verbatim>\<open>date\<close> is unbound at the \<^verbatim>\<open>return\<close>.
\<close>

definition extract_date :: "string \<Rightarrow> error + date" where
  "extract_date date_str =
     (let dash_count = py_count ''-'' date_str
      in if dash_count = 2 then strptime_ymd date_str
         else if dash_count = 5 then
           and_then (strptime_ymd (take 10 date_str)) (\<lambda>date_1.
           and_then (strptime_ymd (take 10 (drop 11 date_str))) (\<lambda>date_2.
           and_then (date_sub date_2 date_1) (\<lambda>span.
           and_then (td_truediv span 2) (\<lambda>half.
           date_add date_1 half))))
         else Inl UnboundLocalError)"

subsection \<open>The three sections of the report\<close>

text \<open>\<^verbatim>\<open>report.split(opening)[1].split(closing)[0]\<close>\<close>

definition section_between :: "string \<Rightarrow> string \<Rightarrow> string \<Rightarrow> error + string" where
  "section_between opening closing report =
     and_then (py_index (py_split opening report) 1)
       (\<lambda>rest. py_index (py_split closing rest) 0)"

definition battery_info :: "string \<Rightarrow> error + string" where
  "battery_info report = section_between ''Installed batteries'' ''Recent usage'' report"

definition capacity_info :: "string \<Rightarrow> error + string" where
  "capacity_info report =
     section_between ''Battery capacity history'' ''Battery life estimates'' report"

definition usage_info :: "string \<Rightarrow> error + string" where
  "usage_info report = section_between ''Usage history'' ''Battery capacity history'' report"

subsection \<open>get\_battery\_information\<close>

record information =
  battery_count :: int
  names :: "string list"
  manufacturers :: "string list"
  serials :: "string list"
  chemistries :: "string list"
  design_capacities :: "int list"
  actual_capacities :: "int list"
  cycles :: "int list"

text \<open>\<^verbatim>\<open>table[i][1:]\<close>\<close>

definition row_tail :: "string list list \<Rightarrow> nat \<Rightarrow> error + string list" where
  "row_tail table i = and_then (py_index table i) (\<lambda>row. Inr (drop 1 row))"

text \<open>Lines 106 to 134, on the table the tokenizer returned.\<close>

definition information_of_table :: "string list list \<Rightarrow> error + information" where
  "information_of_table table =
     and_then (py_index table 0) (\<lambda>header.
     and_then (row_tail table 1) (\<lambda>ns.
     and_then (row_tail table 2) (\<lambda>ms.
     and_then (row_tail table 3) (\<lambda>ss.
     and_then (row_tail table 4) (\<lambda>cs.
     and_then (row_tail table 5) (\<lambda>r5.
     and_then (map_err str_to_int r5) (\<lambda>dcs.
     and_then (row_tail table 6) (\<lambda>r6.
     and_then (map_err str_to_int r6) (\<lambda>acs.
     and_then (row_tail table 7) (\<lambda>r7.
     and_then (map_err str_to_int r7) (\<lambda>cys.
       Inr \<lparr>battery_count = int (length header) - 1, names = ns, manufacturers = ms,
            serials = ss, chemistries = cs, design_capacities = dcs,
            actual_capacities = acs, cycles = cys\<rparr>)))))))))))"

definition get_battery_information :: "string \<Rightarrow> error + information" where
  "get_battery_information report =
     and_then (battery_info report) (\<lambda>info.
     and_then (extract_html_table info) information_of_table)"

subsection \<open>get\_usage\_data\<close>

text \<open>
  Lines 201 to 204:
  \<^verbatim>\<open>
  split_time = table[i][1].split(":")
  active_hours = int(split_time[0])
  active_minutes = int(split_time[1]) + (active_hours * 60)
  active_seconds = int(split_time[2]) + (active_minutes * 60)
  \<close>
\<close>

definition active_seconds :: "string \<Rightarrow> error + int" where
  "active_seconds cell =
     (let split_time = py_split '':'' cell in
      and_then (py_index split_time 0) (\<lambda>h.
      and_then (py_int h) (\<lambda>active_hours.
      and_then (py_index split_time 1) (\<lambda>m.
      and_then (py_int m) (\<lambda>mi.
      and_then (py_index split_time 2) (\<lambda>s.
      and_then (py_int s) (\<lambda>si.
        Inr (si + (mi + active_hours * 60) * 60))))))))"

record usage_state =
  cumulative_usage :: timedelta
  dates :: "date list"
  usage_hours :: "int list"

text \<open>One round of the loop of lines 197 to 214, on the row \<^verbatim>\<open>table[i]\<close>.\<close>

definition usage_step :: "usage_state \<Rightarrow> string list \<Rightarrow> error + usage_state" where
  "usage_step st row =
     and_then (py_index row 1) (\<lambda>cell.
       if 1 < length cell then
         and_then (active_seconds cell) (\<lambda>secs.
           if secs \<le> 7 * 24 * 60 * 60 then
             and_then (timedelta_of_seconds secs) (\<lambda>delta.
             and_then (td_add (cumulative_usage st) delta) (\<lambda>total.
             and_then (py_index row 0) (\<lambda>date_cell.
             and_then (extract_date date_cell) (\<lambda>d.
               Inr \<lparr>cumulative_usage = total, dates = dates st @ [d],
                    usage_hours = usage_hours st @ [hours_int total]\<rparr>))))
           else Inr st)
       else Inr st)"

fun usage_loop :: "usage_state \<Rightarrow> string list list \<Rightarrow> error + usage_state" where
  "usage_loop st [] = Inr st"
| "usage_loop st (row # rows) =
     (case usage_step st row of Inl e \<Rightarrow> Inl e | Inr st' \<Rightarrow> usage_loop st' rows)"

definition usage_start :: usage_state where
  "usage_start = \<lparr>cumulative_usage = Timedelta 0, dates = [], usage_hours = []\<rparr>"

text \<open>The loop runs over \<^verbatim>\<open>range(2, len(table))\<close>; the result is \<^verbatim>\<open>[dates, usage_hours]\<close>.\<close>

definition usage_of_table :: "string list list \<Rightarrow> error + (date list \<times> int list)" where
  "usage_of_table table =
     and_then (usage_loop usage_start (drop 2 table)) (\<lambda>st. Inr (dates st, usage_hours st))"

definition get_usage_data :: "string \<Rightarrow> error + (date list \<times> int list)" where
  "get_usage_data report =
     and_then (usage_info report) (\<lambda>info.
     and_then (extract_html_table info) usage_of_table)"

subsection \<open>Vocabulary of the properties\<close>

text \<open>A text without space, carriage return and line feed.\<close>

definition no_whitespace :: "string \<Rightarrow> bool" where
  "no_whitespace s = (CHR '' '' \<notin> set s \<and> CHR 0x0D \<notin> set s \<and> CHR 0x0A \<notin> set s)"

text \<open>The text before the first occurrence of a separator, all of it when there is none.\<close>

definition before_first :: "string \<Rightarrow> string \<Rightarrow> string" where
  "before_first sep s = (case find_first sep s of None \<Rightarrow> s | Some k \<Rightarrow> take k s)"

text \<open>
  Side conditions on an opening and a closing marker: neither can overlap itself or the
  other. They hold of the table markers and of the anchor phrases of the report.
\<close>

definition markers_ok :: "string \<Rightarrow> string \<Rightarrow> bool" where
  "markers_ok a b =
     (a \<noteq> [] \<and> b \<noteq> [] \<and> hd a \<notin> set (tl a) \<and> hd b \<notin> set (tl b)
      \<and> hd b \<notin> set (tl a) \<and> hd a \<notin> set (tl b) \<and> \<not> prefix (take (length b) a) b)"

text \<open>The dates that \<^verbatim>\<open>strptime\<close> returns: a day of a month of a year from 1 to 9999.\<close>

definition valid_date :: "date \<Rightarrow> bool" where
  "valid_date d =
     (1 \<le> year d \<and> year d \<le> 9999 \<and> 1 \<le> month d \<and> month d \<le> 12
      \<and> 1 \<le> day d \<and> day d \<le> days_in_month (year d) (month d))"

text \<open>
  The section as the specification words it: both anchors located by a first-occurrence search on the
  whole document, the section being the text from the end of the opening anchor to the
  start of the closing one.
\<close>

definition text_between :: "string \<Rightarrow> string \<Rightarrow> string \<Rightarrow> string option" where
  "text_between opening closing document =
     (case (find_first opening document, find_first closing document) of
        (Some i, Some j) \<Rightarrow>
          Some (take (j - (i + length opening)) (drop (i + length opening) document))
      | _ \<Rightarrow> None)"

text \<open>
  The active seconds of a row the loop keeps: the row has a second cell longer than one
  character, its time parses, and the seconds are at most \<open>7 * 24 * 60 * 60\<close>.
\<close>

definition row_seconds :: "string list \<Rightarrow> int option" where
  "row_seconds row =
     (case py_index row 1 of
        Inl e \<Rightarrow> None
      | Inr cell \<Rightarrow>
          if 1 < length cell then
            (case active_seconds cell of
               Inl e \<Rightarrow> None
             | Inr secs \<Rightarrow> if secs \<le> 604800 then Some secs else None)
          else None)"

text \<open>The active seconds of the kept rows, in the order of the rows.\<close>

fun kept_seconds :: "string list list \<Rightarrow> int list" where
  "kept_seconds [] = []"
| "kept_seconds (row # rows) =
     (case row_seconds row of None \<Rightarrow> kept_seconds rows | Some secs \<Rightarrow> secs # kept_seconds rows)"

text \<open>The running totals of a list of numbers, from a starting total.\<close>

fun running_totals :: "int \<Rightarrow> int list \<Rightarrow> int list" where
  "running_totals acc [] = []"
| "running_totals acc (x # xs) = (acc + x) # running_totals (acc + x) xs"

text \<open>A time cell whose first three \<open>:\<close>-separated components are non-negative integers.\<close>

definition nonneg_int :: "string \<Rightarrow> bool" where
  "nonneg_int s = (case py_int s of Inl e \<Rightarrow> False | Inr v \<Rightarrow> 0 \<le> v)"

definition nonneg_components :: "string \<Rightarrow> bool" where
  "nonneg_components cell =
     (let t = py_split '':'' cell
      in 3 \<le> length t \<and> nonneg_int (t ! 0) \<and> nonneg_int (t ! 1) \<and> nonneg_int (t ! 2))"

section \<open>Properties\<close>

subsection \<open>Counting separators\<close>

lemma prefix_single: "prefix [c] s \<longleftrightarrow> (s \<noteq> [] \<and> hd s = c)"
  by (cases s) auto

lemma find_first_single_None: "find_first [c] s = None \<Longrightarrow> c \<notin> set s"
  by (induction s) (auto split: if_splits)

lemma find_first_single_Some:
  "find_first [c] s = Some k \<Longrightarrow> c \<notin> set (take k s) \<and> k < length s \<and> s ! k = c"
proof (induction s arbitrary: k)
  case Nil
  then show ?case by simp
next
  case (Cons x xs)
  show ?case
  proof (cases "x = c")
    case True
    with Cons.prems show ?thesis by simp
  next
    case False
    with Cons.prems obtain j where j: "find_first [c] xs = Some j" "k = Suc j"
      by auto
    from Cons.IH [OF j(1)] j(2) False show ?thesis by auto
  qed
qed

lemma py_count_single: "py_count [c] s = count_list s c"
proof (induction "[c]" s rule: py_count.induct)
  case (1 s)
  show ?case
  proof (cases "find_first [c] s")
    case None
    then have "c \<notin> set s" by (rule find_first_single_None)
    then have "count_list s c = 0" by (simp add: count_list_0_iff)
    with None show ?thesis by (simp add: py_count.simps [of "[c]" s])
  next
    case (Some k)
    from find_first_single_Some [OF Some]
    have k: "c \<notin> set (take k s)" "k < length s" "s ! k = c" by auto
    have s: "s = take k s @ c # drop (Suc k) s"
      using k(2,3) id_take_nth_drop by blast
    have "count_list s c = count_list (take k s @ c # drop (Suc k) s) c"
      using s by simp
    also have "\<dots> = Suc (count_list (drop (Suc k) s) c)"
      using k(1) by (simp add: count_list_0_iff)
    finally have "count_list s c = Suc (count_list (drop (Suc k) s) c)" .
    moreover have "py_count [c] (drop (k + length [c]) s) = count_list (drop (k + length [c]) s) c"
      using "1.hyps" Some by simp
    ultimately show ?thesis using Some by (simp add: py_count.simps [of "[c]" s])
  qed
qed

text \<open>
  C3. A string whose number of \<open>-\<close> characters is neither 2 nor 5 takes neither
  branch of \<^verbatim>\<open>__extract_date\<close>: the function fails at its \<^verbatim>\<open>return\<close>, where the
  result was never bound (an UnboundLocalError, the unrecognized-format failure).
\<close>

theorem extract_date_other_counts:
  "count_list date_str (CHR ''-'') \<noteq> 2 \<Longrightarrow> count_list date_str (CHR ''-'') \<noteq> 5 \<Longrightarrow>
   extract_date date_str = Inl UnboundLocalError"
  by (simp add: extract_date_def py_count_single)

theorem extract_date_other_counts_witness:
  "count_list ''2018-01-052018-01-07'' (CHR ''-'') = 4
   \<and> extract_date ''2018-01-052018-01-07'' = Inl UnboundLocalError
   \<and> extract_date ''20180105'' = Inl UnboundLocalError"
  using extract_date_other_counts [of "''2018-01-052018-01-07''"]
    extract_date_other_counts [of "''20180105''"]
  by simp

subsection \<open>Cells are pieces of the cleaned text\<close>

lemma and_then_Inr:
  "and_then m f = Inr y \<longleftrightarrow> (\<exists>x. m = Inr x \<and> f x = Inr y)"
  by (cases m) (auto simp: and_then_def)

lemma py_index_Inr: "py_index xs i = Inr x \<Longrightarrow> x \<in> set xs"
  by (auto simp: py_index_def split: if_splits)

lemma map_err_Inr:
  "map_err f xs = Inr ys \<Longrightarrow> length ys = length xs \<and> (\<forall>i<length xs. f (xs ! i) = Inr (ys ! i))"
proof (induction xs arbitrary: ys)
  case Nil
  then show ?case by simp
next
  case (Cons x xs)
  from Cons.prems obtain y ys' where y: "f x = Inr y" "map_err f xs = Inr ys'" "ys = y # ys'"
    by (auto split: sum.splits)
  from Cons.IH [OF y(2)] y(1,3) show ?case
    by (auto simp: nth_Cons split: nat.splits)
qed

lemma map_err_Inr_set:
  "map_err f xs = Inr ys \<Longrightarrow> y \<in> set ys \<Longrightarrow> \<exists>x\<in>set xs. f x = Inr y"
  using map_err_Inr [of f xs ys] by (metis in_set_conv_nth)

lemma py_split_pieces: "p \<in> set (py_split sep s) \<Longrightarrow> set p \<subseteq> set s"
proof (induction sep s rule: py_split.induct)
  case (1 sep s)
  show ?case
  proof (cases "sep = []")
    case True
    with "1.prems" show ?thesis by (simp add: py_split.simps [of "[]" s])
  next
    case False
    show ?thesis
    proof (cases "find_first sep s")
      case None
      with False "1.prems" show ?thesis by (simp add: py_split.simps [of sep s])
    next
      case (Some k)
      with False "1.prems" have "p = take k s \<or> p \<in> set (py_split sep (drop (k + length sep) s))"
        by (simp add: py_split.simps [of sep s])
      then show ?thesis
      proof
        assume "p = take k s"
        then show ?thesis by (simp add: set_take_subset)
      next
        assume "p \<in> set (py_split sep (drop (k + length sep) s))"
        with "1.IH" [OF False Some] have "set p \<subseteq> set (drop (k + length sep) s)" .
        then show ?thesis using set_drop_subset by fast
      qed
    qed
  qed
qed

lemma py_replace_delete_subset: "set (py_replace old [] s) \<subseteq> set s"
proof (induction old "[] :: string" s rule: py_replace.induct)
  case (1 old s)
  show ?case
  proof (cases "old = []")
    case True
    then show ?thesis by (simp add: py_replace.simps [of "[]" "[]" s])
  next
    case False
    show ?thesis
    proof (cases "find_first old s")
      case None
      with False show ?thesis by (simp add: py_replace.simps [of old "[]" s])
    next
      case (Some k)
      from "1.hyps" [OF False Some]
      have "set (py_replace old [] (drop (k + length old) s)) \<subseteq> set s"
        using set_drop_subset by fast
      with False Some show ?thesis
        using set_take_subset [of k s] by (simp add: py_replace.simps [of old "[]" s])
    qed
  qed
qed

lemma py_replace_delete_char: "c \<notin> set (py_replace [c] [] s)"
proof (induction "[c]" "[] :: string" s rule: py_replace.induct)
  case (1 s)
  show ?case
  proof (cases "find_first [c] s")
    case None
    then show ?thesis
      using find_first_single_None [of c s] by (simp add: py_replace.simps [of "[c]" "[]" s])
  next
    case (Some k)
    with "1.hyps" find_first_single_Some [OF Some] show ?thesis
      by (simp add: py_replace.simps [of "[c]" "[]" s])
  qed
qed

lemma no_whitespace_subset: "set a \<subseteq> set b \<Longrightarrow> no_whitespace b \<Longrightarrow> no_whitespace a"
  by (auto simp: no_whitespace_def)

lemma no_whitespace_clean_text: "no_whitespace (clean_text t)"
proof -
  let ?a = "py_replace '' '' [] t"
  let ?b = "py_replace [CHR 0x0D] [] ?a"
  let ?c = "py_replace [CHR 0x0A] [] ?b"
  have a: "CHR '' '' \<notin> set ?a" by (rule py_replace_delete_char)
  have b: "CHR 0x0D \<notin> set ?b" by (rule py_replace_delete_char)
  have c: "CHR 0x0A \<notin> set ?c" by (rule py_replace_delete_char)
  have ba: "set ?b \<subseteq> set ?a" by (rule py_replace_delete_subset)
  have cb: "set ?c \<subseteq> set ?b" by (rule py_replace_delete_subset)
  have "set (clean_text t) \<subseteq> set ?c"
    unfolding clean_text_def by (rule py_replace_delete_subset)
  with a b c ba cb show ?thesis unfolding no_whitespace_def by blast
qed

lemma after_gt_subset: "set (after_gt s) \<subseteq> set s"
  unfolding after_gt_def by (rule set_drop_subset)

lemma table_content_subset:
  assumes "table_content t = Inr tb"
  shows "set tb \<subseteq> set (clean_text t)"
proof -
  from assms obtain r where r: "py_index (py_split ''<table>'' (clean_text t)) 1 = Inr r"
    "py_index (py_split ''</table>'' r) 0 = Inr tb"
    by (auto simp: table_content_def and_then_Inr)
  from r(1) have "set r \<subseteq> set (clean_text t)" by (blast dest: py_index_Inr py_split_pieces)
  moreover from r(2) have "set tb \<subseteq> set r" by (blast dest: py_index_Inr py_split_pieces)
  ultimately show ?thesis by blast
qed

lemma extract_row_data_subset:
  assumes "cell \<in> set (extract_row_data row)"
  shows "set cell \<subseteq> set row"
proof -
  from assms have "cell \<in> set (map (\<lambda>d. py_replace ''</td>'' [] (after_gt d)) (py_split ''<td'' row))"
    unfolding extract_row_data_def by (rule in_set_dropD)
  then obtain d where d: "d \<in> set (py_split ''<td'' row)" "cell = py_replace ''</td>'' [] (after_gt d)"
    by auto
  have "set cell \<subseteq> set (after_gt d)" unfolding d(2) by (rule py_replace_delete_subset)
  also have "\<dots> \<subseteq> set d" by (rule after_gt_subset)
  also have "\<dots> \<subseteq> set row" using d(1) by (rule py_split_pieces)
  finally show ?thesis .
qed

lemma extract_row_subset:
  assumes "extract_row piece = Inr cells" "cell \<in> set cells"
  shows "set cell \<subseteq> set piece"
proof -
  from assms(1) obtain row where row: "py_index (py_split ''</tr>'' (after_gt piece)) 0 = Inr row"
    "cells = extract_row_data row"
    by (auto simp: extract_row_def and_then_Inr)
  from row(1) have "set row \<subseteq> set (after_gt piece)" by (blast dest: py_index_Inr py_split_pieces)
  with after_gt_subset [of piece] extract_row_data_subset [of cell row] assms(2) row(2)
  show ?thesis by blast
qed

lemma extract_html_table_cells:
  assumes "extract_html_table t = Inr table" "row \<in> set table" "cell \<in> set row"
  shows "no_whitespace cell"
proof -
  from assms(1) obtain tb where tb: "table_content t = Inr tb"
    "map_err extract_row (drop 1 (py_split ''<tr'' tb)) = Inr table"
    by (auto simp: extract_html_table_def and_then_Inr)
  from map_err_Inr_set [OF tb(2) assms(2)] obtain piece
    where piece: "piece \<in> set (drop 1 (py_split ''<tr'' tb))" "extract_row piece = Inr row"
    by blast
  from piece(1) have "set piece \<subseteq> set tb" by (blast dest: in_set_dropD py_split_pieces)
  with extract_row_subset [OF piece(2) assms(3)] table_content_subset [OF tb(1)]
  have "set cell \<subseteq> set (clean_text t)" by blast
  then show ?thesis using no_whitespace_clean_text by (rule no_whitespace_subset)
qed

subsection \<open>Occurrences of a marker\<close>

lemma find_first_None_iff: "find_first sep s = None \<longleftrightarrow> \<not> sublist sep s"
  by (induction s) (auto simp: sublist_Cons_right)

lemma py_split_0: "py_index (py_split sep s) 0 = Inr (if sep = [] then s else before_first sep s)"
  by (simp add: py_split.simps [of sep s] py_index_def before_first_def split: option.splits)

lemma py_split_1_None:
  "sep \<noteq> [] \<Longrightarrow> find_first sep s = None \<Longrightarrow> py_index (py_split sep s) (Suc 0) = Inl IndexError"
  by (simp add: py_split.simps [of sep s] py_index_def)

lemma py_split_1_Some:
  assumes "sep \<noteq> []" "find_first sep s = Some k"
  shows "py_index (py_split sep s) (Suc 0) = Inr (before_first sep (drop (k + length sep) s))"
proof -
  let ?r = "drop (k + length sep) s"
  have "py_split sep s = take k s # py_split sep ?r"
    using assms by (simp add: py_split.simps [of sep s])
  moreover have "py_index (py_split sep ?r) 0 = Inr (before_first sep ?r)"
    using assms(1) by (simp add: py_split_0)
  ultimately show ?thesis by (auto simp: py_index_def split: if_splits)
qed

text \<open>An occurrence that starts in a non-empty text and runs into the next one.\<close>

lemma prefix_overlap:
  assumes "prefix a (xs @ ys)" "xs \<noteq> []" "ys \<noteq> []" "hd ys \<notin> set (tl a)"
  shows "prefix a xs"
proof -
  from assms(1) consider "prefix a xs" | us where "a = xs @ us" "prefix us ys"
    by (auto simp: prefix_append)
  then show ?thesis
  proof cases
    case 1
    then show ?thesis .
  next
    case 2
    show ?thesis
    proof (cases us)
      case Nil
      with 2 show ?thesis by simp
    next
      case (Cons u us')
      with 2(2) assms(3) have "hd ys = u" by (cases ys) auto
      moreover from 2(1) Cons assms(2) have "u \<in> set (tl a)" by (cases xs) auto
      ultimately show ?thesis using assms(4) by simp
    qed
  qed
qed

lemma find_first_at:
  assumes "sep \<noteq> []" "hd sep \<notin> set (tl sep)" "\<not> sublist sep pre"
  shows "find_first sep (pre @ sep @ rest) = Some (length pre)"
  using assms(3)
proof (induction pre)
  case Nil
  from assms(1) obtain c cs where "sep = c # cs" by (cases sep) auto
  then show ?case by simp
next
  case (Cons c p)
  have "\<not> prefix sep (c # p @ sep @ rest)"
  proof
    assume "prefix sep (c # p @ sep @ rest)"
    then have "prefix sep ((c # p) @ (sep @ rest))" by simp
    moreover have "hd (sep @ rest) \<notin> set (tl sep)" using assms(1,2) by simp
    ultimately have "prefix sep (c # p)"
      using assms(1) by (intro prefix_overlap [of sep "c # p" "sep @ rest"]) auto
    then have "sublist sep (c # p)" by (rule prefix_imp_sublist)
    with Cons.prems show False by simp
  qed
  moreover from Cons.prems have "\<not> sublist sep p" by (auto simp: sublist_Cons_right)
  ultimately show ?case using Cons.IH by simp
qed

lemma no_opening_before_closing_ends:
  assumes ok: "markers_ok a b" and mid: "\<not> sublist a mid"
    and k: "prefix a (drop k (mid @ b @ post))"
  shows "length mid + length b \<le> k"
proof (rule ccontr)
  assume "\<not> length mid + length b \<le> k"
  then have lt: "k < length mid + length b" by simp
  from ok have a: "a \<noteq> []" and b: "b \<noteq> []" by (auto simp: markers_ok_def)
  show False
  proof (cases "k < length mid")
    case True
    then have "drop k (mid @ b @ post) = drop k mid @ (b @ post)" by simp
    with k have "prefix a (drop k mid @ (b @ post))" by simp
    then have "prefix a (drop k mid)"
      using True b ok by (intro prefix_overlap [of a "drop k mid" "b @ post"]) (auto simp: markers_ok_def)
    then have "sublist a (drop k mid)" by (rule prefix_imp_sublist)
    then have "sublist a mid"
      by (metis append_take_drop_id sublist_append_leftI sublist_order.order_trans)
    with mid show False by simp
  next
    case False
    define j where "j = k - length mid"
    from False lt have j: "j < length b" "k = length mid + j" by (auto simp: j_def)
    from k j have p: "prefix a (drop j b @ post)" by simp
    show False
    proof (cases j)
      case 0
      with p have "prefix a (b @ post)" by simp
      then consider "prefix a b" | us where "a = b @ us"
        by (auto simp: prefix_append)
      then have "prefix (take (length b) a) b"
      proof cases
        case 1
        then have "length a \<le> length b" by (rule prefix_length_le)
        with 1 show ?thesis by simp
      next
        case 2
        then show ?thesis by simp
      qed
      with ok show False by (simp add: markers_ok_def)
    next
      case (Suc j')
      from j(1) have ne: "drop j b \<noteq> []" by simp
      from p a ne have "hd a = hd (drop j b)"
        by (cases a; cases "drop j b") auto
      also have "\<dots> = b ! j" using j(1) by (simp add: hd_drop_conv_nth)
      also have "\<dots> \<in> set (tl b)"
        using j(1) Suc by (cases b) auto
      finally show False using ok by (simp add: markers_ok_def)
    qed
  qed
qed

lemma before_first_keeps:
  assumes ok: "markers_ok a b" and mid: "\<not> sublist a mid"
  shows "\<exists>post'. before_first a (mid @ b @ post) = mid @ b @ post'"
proof (cases "find_first a (mid @ b @ post)")
  case None
  then show ?thesis by (auto simp: before_first_def)
next
  case (Some k)
  from find_first_Some [OF Some] have "prefix a (drop k (mid @ b @ post))" by simp
  with ok mid have le: "length mid + length b \<le> k" by (rule no_opening_before_closing_ends)
  from le have "length mid \<le> k" "length b \<le> k - length mid" by auto
  then have "take k (mid @ b @ post) = mid @ b @ take (k - length mid - length b) post"
    by simp
  with Some have "before_first a (mid @ b @ post) = mid @ b @ take (k - length mid - length b) post"
    by (simp only: before_first_def option.case)
  then show ?thesis by blast
qed

lemma section_between_text:
  assumes ok: "markers_ok a b"
    and pre: "\<not> sublist a pre" and mid: "\<not> sublist a mid" "\<not> sublist b mid"
  shows "section_between a b (pre @ a @ mid @ b @ post) = Inr mid"
proof -
  from ok have a: "a \<noteq> []" "hd a \<notin> set (tl a)" and b: "b \<noteq> []" "hd b \<notin> set (tl b)"
    by (auto simp: markers_ok_def)
  have "find_first a (pre @ a @ (mid @ b @ post)) = Some (length pre)"
    using a pre by (rule find_first_at)
  from py_split_1_Some [OF a(1) this]
  have 1: "py_index (py_split a (pre @ a @ mid @ b @ post)) 1 = Inr (before_first a (mid @ b @ post))"
    by simp
  from before_first_keeps [OF ok mid(1)] obtain post'
    where post': "before_first a (mid @ b @ post) = mid @ b @ post'" by blast
  have "find_first b (mid @ b @ post') = Some (length mid)"
    using b mid(2) by (rule find_first_at)
  then have "before_first b (mid @ b @ post') = mid" by (simp add: before_first_def)
  with 1 post' b(1) show ?thesis
    by (simp add: section_between_def and_then_def py_split_0)
qed

lemma section_between_no_opening:
  assumes "a \<noteq> []" "\<not> sublist a report"
  shows "section_between a b report = Inl IndexError"
  using assms by (simp add: section_between_def and_then_def py_split_1_None find_first_None_iff)

lemma section_between_open_only:
  assumes a: "a \<noteq> []" "hd a \<notin> set (tl a)" and b: "b \<noteq> []"
    and pre: "\<not> sublist a pre" and rest: "\<not> sublist a rest" "\<not> sublist b rest"
  shows "section_between a b (pre @ a @ rest) = Inr rest"
proof -
  have "find_first a (pre @ a @ rest) = Some (length pre)"
    using a pre by (rule find_first_at)
  from py_split_1_Some [OF a(1) this]
  have "py_index (py_split a (pre @ a @ rest)) 1 = Inr (before_first a rest)" by simp
  moreover have "before_first a rest = rest"
    using rest(1) by (simp add: before_first_def find_first_None_iff [symmetric])
  moreover have "before_first b rest = rest"
    using rest(2) by (simp add: before_first_def find_first_None_iff [symmetric])
  ultimately show ?thesis using b
    by (simp add: section_between_def and_then_def py_split_0)
qed

subsection \<open>The table region\<close>

lemma table_content_section:
  "table_content t = section_between ''<table>'' ''</table>'' (clean_text t)"
  by (simp add: table_content_def section_between_def)

lemma extract_row_total: "\<exists>cells. extract_row piece = Inr cells"
  by (simp add: extract_row_def and_then_def py_split_0)

lemma map_err_total: "(\<And>x. \<exists>y. f x = Inr y) \<Longrightarrow> \<exists>ys. map_err f xs = Inr ys"
proof (induction xs)
  case Nil
  then show ?case by simp
next
  case (Cons x xs)
  from Cons.prems obtain y where "f x = Inr y" by blast
  moreover from Cons obtain ys where "map_err f xs = Inr ys" by blast
  ultimately show ?case by simp
qed

lemma section_between_cases:
  assumes "a \<noteq> []"
  shows "(\<not> sublist a report \<longrightarrow> section_between a b report = Inl IndexError)
       \<and> (sublist a report \<longrightarrow> (\<exists>x. section_between a b report = Inr x))"
proof (cases "find_first a report")
  case None
  then have "\<not> sublist a report" by (simp add: find_first_None_iff)
  with assms show ?thesis by (simp add: section_between_no_opening)
next
  case (Some k)
  then have "sublist a report" using find_first_None_iff [of a report] by simp
  moreover from py_split_1_Some [OF assms Some]
  have "\<exists>x. section_between a b report = Inr x"
    by (simp add: section_between_def and_then_def py_split_0)
  ultimately show ?thesis by simp
qed

lemma extract_html_table_cases:
  "(\<not> sublist ''<table>'' (clean_text t) \<longrightarrow> extract_html_table t = Inl IndexError)
   \<and> (sublist ''<table>'' (clean_text t) \<longrightarrow> (\<exists>table. extract_html_table t = Inr table))"
proof (cases "sublist ''<table>'' (clean_text t)")
  case True
  with section_between_cases [of "''<table>''" "clean_text t" "''</table>''"]
  obtain tb where tb: "table_content t = Inr tb" by (auto simp: table_content_section)
  from map_err_total [of extract_row "drop 1 (py_split ''<tr'' tb)"] extract_row_total
  obtain table where "map_err extract_row (drop 1 (py_split ''<tr'' tb)) = Inr table" by blast
  with tb True show ?thesis by (simp add: extract_html_table_def and_then_def)
next
  case False
  with section_between_cases [of "''<table>''" "clean_text t" "''</table>''"]
  have "table_content t = Inl IndexError" by (simp add: table_content_section)
  with False show ?thesis by (simp add: extract_html_table_def and_then_def)
qed

lemma table_markers_ok: "markers_ok ''<table>'' ''</table>''"
  by (simp add: markers_ok_def)

text \<open>
  C1, as amended. \<^verbatim>\<open>__extract_html_table\<close> fails (with the IndexError of
  \<^verbatim>\<open>split("<table>")[1]\<close>) exactly when the cleaned text has no \<^verbatim>\<open><table>\<close>. When
  the cleaned text is \<open>pre <table> mid </table> post\<close> with no \<^verbatim>\<open><table>\<close> in
  \<open>pre\<close> and neither marker in \<open>mid\<close>, the table content is \<open>mid\<close>. When a single
  \<^verbatim>\<open><table>\<close> is followed by no \<^verbatim>\<open></table>\<close>, the table content is all the text
  after the opening marker, and nothing fails.
\<close>

theorem table_content_between_markers:
  "(extract_html_table t = Inl IndexError \<longleftrightarrow> \<not> sublist ''<table>'' (clean_text t))
   \<and> ((\<exists>table. extract_html_table t = Inr table) \<longleftrightarrow> sublist ''<table>'' (clean_text t))
   \<and> (clean_text t = pre @ ''<table>'' @ mid @ ''</table>'' @ post
        \<and> \<not> sublist ''<table>'' pre \<and> \<not> sublist ''<table>'' mid \<and> \<not> sublist ''</table>'' mid
      \<longrightarrow> table_content t = Inr mid)
   \<and> (clean_text t = pre' @ ''<table>'' @ rest
        \<and> \<not> sublist ''<table>'' pre' \<and> \<not> sublist ''<table>'' rest \<and> \<not> sublist ''</table>'' rest
      \<longrightarrow> table_content t = Inr rest)"
proof -
  have 1: "extract_html_table t = Inl IndexError \<longleftrightarrow> \<not> sublist ''<table>'' (clean_text t)"
    using extract_html_table_cases [of t] by auto
  have 2: "(\<exists>table. extract_html_table t = Inr table) \<longleftrightarrow> sublist ''<table>'' (clean_text t)"
    using extract_html_table_cases [of t] by auto
  have 3: "table_content t = Inr mid"
    if "clean_text t = pre @ ''<table>'' @ mid @ ''</table>'' @ post"
      "\<not> sublist ''<table>'' pre" "\<not> sublist ''<table>'' mid" "\<not> sublist ''</table>'' mid"
    using section_between_text [OF table_markers_ok that(2,3,4), of post] that(1)
    by (simp add: table_content_section)
  have 4: "table_content t = Inr rest"
    if "clean_text t = pre' @ ''<table>'' @ rest"
      "\<not> sublist ''<table>'' pre'" "\<not> sublist ''<table>'' rest" "\<not> sublist ''</table>'' rest"
    using section_between_open_only [of "''<table>''" "''</table>''" pre' rest] that
    by (simp add: table_content_section)
  from 1 2 3 4 show ?thesis by blast
qed

theorem table_content_between_markers_witness:
  "extract_html_table ''no table here'' = Inl IndexError
   \<and> table_content ''a <table> <tr><td>x y</td></tr> </table> b'' = Inr ''<tr><td>xy</td></tr>''
   \<and> table_content ''<table><tr><td>x</td></tr>'' = Inr ''<tr><td>x</td></tr>''"
proof -
  have c1: "clean_text ''no table here'' = ''notablehere''" by code_simp
  have c2: "clean_text ''a <table> <tr><td>x y</td></tr> </table> b''
            = ''a<table><tr><td>xy</td></tr></table>b''" by code_simp
  have c3: "clean_text ''<table><tr><td>x</td></tr>'' = ''<table><tr><td>x</td></tr>''"
    by code_simp
  have n1: "\<not> sublist ''<table>'' ''notablehere''" by code_simp
  have n2: "\<not> sublist ''<table>'' ''a''" "\<not> sublist ''<table>'' ''<tr><td>xy</td></tr>''"
    "\<not> sublist ''</table>'' ''<tr><td>xy</td></tr>''" by code_simp+
  have n3: "\<not> sublist ''<table>'' []" "\<not> sublist ''<table>'' ''<tr><td>x</td></tr>''"
    "\<not> sublist ''</table>'' ''<tr><td>x</td></tr>''" by code_simp+
  from table_content_between_markers [of "''no table here''"] c1 n1
  have "extract_html_table ''no table here'' = Inl IndexError" by simp
  moreover from table_content_between_markers
    [of "''a <table> <tr><td>x y</td></tr> </table> b''" "''a''" "''<tr><td>xy</td></tr>''" "''b''"]
    c2 n2
  have "table_content ''a <table> <tr><td>x y</td></tr> </table> b'' = Inr ''<tr><td>xy</td></tr>''"
    by simp
  moreover from table_content_between_markers
    [of "''<table><tr><td>x</td></tr>''" _ _ _ "[]" "''<tr><td>x</td></tr>''"] c3 n3
  have "table_content ''<table><tr><td>x</td></tr>'' = Inr ''<tr><td>x</td></tr>''"
    by simp
  ultimately show ?thesis by simp
qed

text \<open>
  C1 as the specification states it fails: a fragment without \<^verbatim>\<open></table>\<close> is tokenized, not
  rejected.
\<close>

theorem missing_close_marker_counterexample:
  "\<not> sublist ''</table>'' (clean_text ''<table><tr><td>x</td></tr>'')
   \<and> extract_html_table ''<table><tr><td>x</td></tr>'' = Inr [[''x'']]"
  by code_simp

subsection \<open>The sections of the report\<close>

lemma anchors_ok:
  "markers_ok ''Installed batteries'' ''Recent usage''"
  "markers_ok ''Usage history'' ''Battery capacity history''"
  "markers_ok ''Battery capacity history'' ''Battery life estimates''"
  by (simp_all add: markers_ok_def)

text \<open>
  C8, as amended. When the report is \<open>pre A mid B post\<close> for an opening anchor \<open>A\<close>
  and its closing anchor \<open>B\<close>, with no \<open>A\<close> in \<open>pre\<close> and neither anchor in \<open>mid\<close>,
  the section is \<open>mid\<close>. The opening anchor is searched in the whole report; the closing
  one only in what follows the first opening anchor, up to the next opening anchor.
\<close>

theorem sections_between_anchors:
  "(report = pre1 @ ''Installed batteries'' @ mid1 @ ''Recent usage'' @ post1
      \<and> \<not> sublist ''Installed batteries'' pre1 \<and> \<not> sublist ''Installed batteries'' mid1
      \<and> \<not> sublist ''Recent usage'' mid1
    \<longrightarrow> battery_info report = Inr mid1)
   \<and> (report = pre2 @ ''Usage history'' @ mid2 @ ''Battery capacity history'' @ post2
      \<and> \<not> sublist ''Usage history'' pre2 \<and> \<not> sublist ''Usage history'' mid2
      \<and> \<not> sublist ''Battery capacity history'' mid2
    \<longrightarrow> usage_info report = Inr mid2)
   \<and> (report = pre3 @ ''Battery capacity history'' @ mid3 @ ''Battery life estimates'' @ post3
      \<and> \<not> sublist ''Battery capacity history'' pre3 \<and> \<not> sublist ''Battery capacity history'' mid3
      \<and> \<not> sublist ''Battery life estimates'' mid3
    \<longrightarrow> capacity_info report = Inr mid3)"
  unfolding battery_info_def usage_info_def capacity_info_def
  using section_between_text [OF anchors_ok(1), of pre1 mid1 post1]
    section_between_text [OF anchors_ok(2), of pre2 mid2 post2]
    section_between_text [OF anchors_ok(3), of pre3 mid3 post3]
  by blast

theorem sections_between_anchors_witness:
  "battery_info ''xInstalled batteriesAARecent usageyUsage historyBBBattery capacity historyCCBattery life estimatesz'' = Inr ''AA''
   \<and> usage_info ''xInstalled batteriesAARecent usageyUsage historyBBBattery capacity historyCCBattery life estimatesz'' = Inr ''BB''
   \<and> capacity_info ''xInstalled batteriesAARecent usageyUsage historyBBBattery capacity historyCCBattery life estimatesz'' = Inr ''CC''"
proof -
  have n1: "\<not> sublist ''Installed batteries'' ''x''" "\<not> sublist ''Installed batteries'' ''AA''"
    "\<not> sublist ''Recent usage'' ''AA''" by code_simp+
  have n2: "\<not> sublist ''Usage history'' ''xInstalled batteriesAARecent usagey''"
    "\<not> sublist ''Usage history'' ''BB''" "\<not> sublist ''Battery capacity history'' ''BB''"
    by code_simp+
  have n3: "\<not> sublist ''Battery capacity history'' ''xInstalled batteriesAARecent usageyUsage historyBB''"
    "\<not> sublist ''Battery capacity history'' ''CC''" "\<not> sublist ''Battery life estimates'' ''CC''"
    by code_simp+
  from sections_between_anchors
    [of "''xInstalled batteriesAARecent usageyUsage historyBBBattery capacity historyCCBattery life estimatesz''"
      "''x''" "''AA''" "''yUsage historyBBBattery capacity historyCCBattery life estimatesz''"
      "''xInstalled batteriesAARecent usagey''" "''BB''" "''CCBattery life estimatesz''"
      "''xInstalled batteriesAARecent usageyUsage historyBB''" "''CC''" "''z''"]
    n1 n2 n3
  show ?thesis by simp
qed

text \<open>
  C8 as the specification states it fails on a document that holds all four phrases: with a second
  \<open>Installed batteries\<close> before \<open>Recent usage\<close> the code stops at it, and the text
  between the first occurrences of the two anchors is longer.
\<close>

theorem sections_first_occurrence_counterexample:
  "sublist ''Installed batteries'' ''Installed batteriesaInstalled batteriesbRecent usageUsage historyBattery capacity historyBattery life estimates''
   \<and> sublist ''Recent usage'' ''Installed batteriesaInstalled batteriesbRecent usageUsage historyBattery capacity historyBattery life estimates''
   \<and> sublist ''Usage history'' ''Installed batteriesaInstalled batteriesbRecent usageUsage historyBattery capacity historyBattery life estimates''
   \<and> sublist ''Battery capacity history'' ''Installed batteriesaInstalled batteriesbRecent usageUsage historyBattery capacity historyBattery life estimates''
   \<and> sublist ''Battery life estimates'' ''Installed batteriesaInstalled batteriesbRecent usageUsage historyBattery capacity historyBattery life estimates''
   \<and> text_between ''Installed batteries'' ''Recent usage'' ''Installed batteriesaInstalled batteriesbRecent usageUsage historyBattery capacity historyBattery life estimates'' = Some ''aInstalled batteriesb''
   \<and> battery_info ''Installed batteriesaInstalled batteriesbRecent usageUsage historyBattery capacity historyBattery life estimates'' = Inr ''a''"
  by code_simp

subsection \<open>The battery information\<close>

lemma row_tail_Inr: "row_tail table i = Inr r \<longleftrightarrow> (i < length table \<and> r = drop 1 (table ! i))"
  by (auto simp: row_tail_def and_then_def py_index_def)

lemma information_of_table_Inr:
  assumes "information_of_table table = Inr info"
  shows "8 \<le> length table"
    and "battery_count info = int (length (table ! 0)) - 1"
    and "names info = drop 1 (table ! 1)"
    and "manufacturers info = drop 1 (table ! 2)"
    and "serials info = drop 1 (table ! 3)"
    and "chemistries info = drop 1 (table ! 4)"
    and "map_err str_to_int (drop 1 (table ! 5)) = Inr (design_capacities info)"
    and "map_err str_to_int (drop 1 (table ! 6)) = Inr (actual_capacities info)"
    and "map_err str_to_int (drop 1 (table ! 7)) = Inr (cycles info)"
proof -
  from assms obtain header ns ms ss cs r5 dcs r6 acs r7 cys where
    h: "py_index table 0 = Inr header"
    and r: "row_tail table 1 = Inr ns" "row_tail table 2 = Inr ms" "row_tail table 3 = Inr ss"
      "row_tail table 4 = Inr cs" "row_tail table 5 = Inr r5" "row_tail table 6 = Inr r6"
      "row_tail table 7 = Inr r7"
    and m: "map_err str_to_int r5 = Inr dcs" "map_err str_to_int r6 = Inr acs"
      "map_err str_to_int r7 = Inr cys"
    and i: "info = \<lparr>battery_count = int (length header) - 1, names = ns, manufacturers = ms,
            serials = ss, chemistries = cs, design_capacities = dcs,
            actual_capacities = acs, cycles = cys\<rparr>"
    unfolding information_of_table_def and_then_Inr by blast
  from h have h': "header = table ! 0" by (auto simp: py_index_def split: if_splits)
  from r(7) show "8 \<le> length table" by (simp add: row_tail_Inr)
  from i h' show "battery_count info = int (length (table ! 0)) - 1" by simp
  from i r(1) show "names info = drop 1 (table ! 1)" by (simp add: row_tail_Inr)
  from i r(2) show "manufacturers info = drop 1 (table ! 2)" by (simp add: row_tail_Inr)
  from i r(3) show "serials info = drop 1 (table ! 3)" by (simp add: row_tail_Inr)
  from i r(4) show "chemistries info = drop 1 (table ! 4)" by (simp add: row_tail_Inr)
  from i r(5) m(1) show "map_err str_to_int (drop 1 (table ! 5)) = Inr (design_capacities info)"
    by (simp add: row_tail_Inr)
  from i r(6) m(2) show "map_err str_to_int (drop 1 (table ! 6)) = Inr (actual_capacities info)"
    by (simp add: row_tail_Inr)
  from i r(7) m(3) show "map_err str_to_int (drop 1 (table ! 7)) = Inr (cycles info)"
    by (simp add: row_tail_Inr)
qed

lemma get_battery_information_Inr:
  assumes "get_battery_information report = Inr info"
  obtains sec table where "battery_info report = Inr sec" "extract_html_table sec = Inr table"
    "information_of_table table = Inr info"
  using assms unfolding get_battery_information_def and_then_Inr by blast

lemma text_columns_without_whitespace:
  assumes "get_battery_information report = Inr info"
    and "s \<in> set (names info @ manufacturers info @ serials info @ chemistries info)"
  shows "no_whitespace s"
proof -
  from assms(1) obtain sec table where t: "extract_html_table sec = Inr table"
    "information_of_table table = Inr info"
    by (rule get_battery_information_Inr)
  note i = information_of_table_Inr [OF t(2)]
  from assms(2) i(3-6) consider "s \<in> set (drop 1 (table ! 1))" | "s \<in> set (drop 1 (table ! 2))"
    | "s \<in> set (drop 1 (table ! 3))" | "s \<in> set (drop 1 (table ! 4))"
    by auto
  then have "\<exists>k<8. s \<in> set (drop 1 (table ! k))"
  proof cases
    case 1
    then show ?thesis by (intro exI [of _ 1]) simp
  next
    case 2
    then show ?thesis by (intro exI [of _ 2]) simp
  next
    case 3
    then show ?thesis by (intro exI [of _ 3]) simp
  next
    case 4
    then show ?thesis by (intro exI [of _ 4]) simp
  qed
  then obtain k where k: "k < 8" "s \<in> set (drop 1 (table ! k))" by blast
  from k(1) i(1) have "table ! k \<in> set table" by simp
  moreover from k(2) have "s \<in> set (table ! k)" by (rule in_set_dropD)
  ultimately show ?thesis using t(1) by (intro extract_html_table_cells)
qed

text \<open>
  C10. No cell the tokenizer returns holds a space, a carriage return or a line feed,
  and so neither does any name, manufacturer, serial number or chemistry of the battery
  information: the cleaning removes the three characters everywhere, also inside the
  text of a cell.
\<close>

theorem cells_without_whitespace:
  "(extract_html_table t = Inr table \<longrightarrow> (\<forall>row\<in>set table. \<forall>cell\<in>set row. no_whitespace cell))
   \<and> (get_battery_information report = Inr info \<longrightarrow>
        (\<forall>s\<in>set (names info @ manufacturers info @ serials info @ chemistries info).
           no_whitespace s))"
  using extract_html_table_cells [of t table] text_columns_without_whitespace [of report info]
  by blast

lemma map_err_Inl: "map_err f xs = Inl e \<Longrightarrow> \<exists>x\<in>set xs. f x = Inl e"
  by (induction xs) (auto split: sum.splits)

lemma map_err_map: "map_err f xs = Inr ys \<Longrightarrow> map Inr ys = map f xs"
  by (induction xs arbitrary: ys) (auto split: sum.splits)

lemma str_to_int_error: "str_to_int s = Inl e \<Longrightarrow> e = ValueError"
  by (auto simp: str_to_int_def py_int_def Let_def split: if_splits)

lemma information_of_table_Inl:
  assumes "8 \<le> length table" "information_of_table table = Inl e"
  shows "e = ValueError \<and>
    (\<exists>cell\<in>set (drop 1 (table ! 5) @ drop 1 (table ! 6) @ drop 1 (table ! 7)).
       str_to_int cell = Inl ValueError)"
proof -
  have rows: "py_index table 0 = Inr (table ! 0)" "row_tail table 1 = Inr (drop 1 (table ! 1))"
    "row_tail table 2 = Inr (drop 1 (table ! 2))" "row_tail table 3 = Inr (drop 1 (table ! 3))"
    "row_tail table 4 = Inr (drop 1 (table ! 4))" "row_tail table 5 = Inr (drop 1 (table ! 5))"
    "row_tail table 6 = Inr (drop 1 (table ! 6))" "row_tail table 7 = Inr (drop 1 (table ! 7))"
    using assms(1) by (auto simp: row_tail_Inr py_index_def)
  from assms(2) have "map_err str_to_int (drop 1 (table ! 5)) = Inl e
     \<or> map_err str_to_int (drop 1 (table ! 6)) = Inl e
     \<or> map_err str_to_int (drop 1 (table ! 7)) = Inl e"
    unfolding information_of_table_def rows
    by (auto simp: and_then_def split: sum.splits)
  then obtain k cell where "k \<in> {5, 6, 7}" "cell \<in> set (drop 1 (table ! k))"
    "str_to_int cell = Inl e"
    by (auto dest!: map_err_Inl)
  moreover from this have "e = ValueError" by (auto dest: str_to_int_error)
  ultimately show ?thesis by auto
qed

lemma information_of_table_columns:
  assumes len: "length table = 8" and rows: "\<forall>row\<in>set table. length row = Suc n"
    and info: "information_of_table table = Inr info"
  shows "battery_count info = int n"
    and "length (names info) = n \<and> length (manufacturers info) = n \<and> length (serials info) = n
         \<and> length (chemistries info) = n \<and> length (design_capacities info) = n
         \<and> length (actual_capacities info) = n \<and> length (cycles info) = n"
proof -
  note i = information_of_table_Inr [OF info]
  have l: "length (table ! k) = Suc n" if "k < 8" for k
    using rows len that by simp
  from i(2) l [of 0] show "battery_count info = int n" by simp
  from map_err_Inr [OF i(7)] map_err_Inr [OF i(8)] map_err_Inr [OF i(9)]
  have "length (design_capacities info) = n" "length (actual_capacities info) = n"
    "length (cycles info) = n"
    using l [of 5] l [of 6] l [of 7] by simp_all
  moreover have "length (names info) = n" "length (manufacturers info) = n"
    "length (serials info) = n" "length (chemistries info) = n"
    using i(3-6) l [of 1] l [of 2] l [of 3] l [of 4] by simp_all
  ultimately show "length (names info) = n \<and> length (manufacturers info) = n \<and> length (serials info) = n
         \<and> length (chemistries info) = n \<and> length (design_capacities info) = n
         \<and> length (actual_capacities info) = n \<and> length (cycles info) = n"
    by simp
qed

text \<open>
  C7, as amended. \<^verbatim>\<open>get_battery_information\<close> is \<open>information_of_table\<close> on the table
  tokenized from the battery section. On a table of exactly 8 rows of \<open>n + 1\<close> cells
  each, either it returns a battery count of \<open>n\<close> and seven columns of length \<open>n\<close>,
  the four text columns being rows 1 to 4 without their first cell and the three integer
  columns \<^verbatim>\<open>__str_to_int\<close> of the cells of rows 5 to 7 after the first; or it raises a
  ValueError, and then one of those cells of rows 5 to 7 is one on which
  \<^verbatim>\<open>__str_to_int\<close> raises it.
\<close>

theorem battery_information_columns:
  "(battery_info report = Inr sec \<and> extract_html_table sec = Inr table
      \<longrightarrow> get_battery_information report = information_of_table table)
   \<and> (length table = 8 \<and> (\<forall>row\<in>set table. length row = Suc n) \<longrightarrow>
        (case information_of_table table of
           Inr info \<Rightarrow>
             battery_count info = int n
             \<and> length (names info) = n \<and> length (manufacturers info) = n
             \<and> length (serials info) = n \<and> length (chemistries info) = n
             \<and> length (design_capacities info) = n \<and> length (actual_capacities info) = n
             \<and> length (cycles info) = n
             \<and> names info = drop 1 (table ! 1) \<and> manufacturers info = drop 1 (table ! 2)
             \<and> serials info = drop 1 (table ! 3) \<and> chemistries info = drop 1 (table ! 4)
             \<and> map Inr (design_capacities info) = map str_to_int (drop 1 (table ! 5))
             \<and> map Inr (actual_capacities info) = map str_to_int (drop 1 (table ! 6))
             \<and> map Inr (cycles info) = map str_to_int (drop 1 (table ! 7))
         | Inl e \<Rightarrow>
             e = ValueError
             \<and> (\<exists>cell\<in>set (drop 1 (table ! 5) @ drop 1 (table ! 6) @ drop 1 (table ! 7)).
                  str_to_int cell = Inl ValueError)))"
proof (intro conjI impI)
  assume "battery_info report = Inr sec \<and> extract_html_table sec = Inr table"
  then show "get_battery_information report = information_of_table table"
    by (simp add: get_battery_information_def and_then_def)
next
  assume a: "length table = 8 \<and> (\<forall>row\<in>set table. length row = Suc n)"
  show "case information_of_table table of
           Inr info \<Rightarrow>
             battery_count info = int n
             \<and> length (names info) = n \<and> length (manufacturers info) = n
             \<and> length (serials info) = n \<and> length (chemistries info) = n
             \<and> length (design_capacities info) = n \<and> length (actual_capacities info) = n
             \<and> length (cycles info) = n
             \<and> names info = drop 1 (table ! 1) \<and> manufacturers info = drop 1 (table ! 2)
             \<and> serials info = drop 1 (table ! 3) \<and> chemistries info = drop 1 (table ! 4)
             \<and> map Inr (design_capacities info) = map str_to_int (drop 1 (table ! 5))
             \<and> map Inr (actual_capacities info) = map str_to_int (drop 1 (table ! 6))
             \<and> map Inr (cycles info) = map str_to_int (drop 1 (table ! 7))
         | Inl e \<Rightarrow>
             e = ValueError
             \<and> (\<exists>cell\<in>set (drop 1 (table ! 5) @ drop 1 (table ! 6) @ drop 1 (table ! 7)).
                  str_to_int cell = Inl ValueError)"
  proof (cases "information_of_table table")
    case (Inl e)
    with a information_of_table_Inl [of table e] show ?thesis by simp
  next
    case (Inr info)
    note i = information_of_table_Inr [OF Inr]
    from a Inr have c: "battery_count info = int n"
      "length (names info) = n \<and> length (manufacturers info) = n \<and> length (serials info) = n
         \<and> length (chemistries info) = n \<and> length (design_capacities info) = n
         \<and> length (actual_capacities info) = n \<and> length (cycles info) = n"
      by (simp_all add: information_of_table_columns [of table n info])
    have m: "map Inr (design_capacities info) = map str_to_int (drop 1 (table ! 5))"
      "map Inr (actual_capacities info) = map str_to_int (drop 1 (table ! 6))"
      "map Inr (cycles info) = map str_to_int (drop 1 (table ! 7))"
      using i(7-9) by (simp_all only: map_err_map)
    from c m i(3-6) Inr show ?thesis by simp
  qed
qed

text \<open>A report with one battery, and its tokenization, for the examples below.\<close>

lemma sample_section:
  "battery_info ''Installed batteries <table><tr><td></td><td>BATTERY 1</td></tr><tr><td>NAME<td>DELL X<tr><td>MAKER<td>LG Chem<tr><td>SERIAL<td>11<tr><td>CHEM<td>LiP<tr><td>DESIGN<td>42,002 mWh<tr><td>FULL<td>0993mWh<tr><td>CYCLES<td>12</table> Recent usage''
   = Inr '' <table><tr><td></td><td>BATTERY 1</td></tr><tr><td>NAME<td>DELL X<tr><td>MAKER<td>LG Chem<tr><td>SERIAL<td>11<tr><td>CHEM<td>LiP<tr><td>DESIGN<td>42,002 mWh<tr><td>FULL<td>0993mWh<tr><td>CYCLES<td>12</table> ''"
  by code_simp

lemma sample_table:
  "extract_html_table '' <table><tr><td></td><td>BATTERY 1</td></tr><tr><td>NAME<td>DELL X<tr><td>MAKER<td>LG Chem<tr><td>SERIAL<td>11<tr><td>CHEM<td>LiP<tr><td>DESIGN<td>42,002 mWh<tr><td>FULL<td>0993mWh<tr><td>CYCLES<td>12</table> ''
   = Inr [['''', ''BATTERY1''], [''NAME'', ''DELLX''], [''MAKER'', ''LGChem''], [''SERIAL'', ''11''], [''CHEM'', ''LiP''], [''DESIGN'', ''42,002mWh''], [''FULL'', ''0993mWh''], [''CYCLES'', ''12'']]"
  by code_simp

lemma sample_information:
  "information_of_table [['''', ''BATTERY1''], [''NAME'', ''DELLX''], [''MAKER'', ''LGChem''], [''SERIAL'', ''11''], [''CHEM'', ''LiP''], [''DESIGN'', ''42,002mWh''], [''FULL'', ''0993mWh''], [''CYCLES'', ''12'']]
   = Inr \<lparr>battery_count = 1, names = [''DELLX''], manufacturers = [''LGChem''], serials = [''11''], chemistries = [''LiP''], design_capacities = [42002], actual_capacities = [993], cycles = [12]\<rparr>"
  by code_simp

theorem battery_information_columns_witness:
  "get_battery_information ''Installed batteries <table><tr><td></td><td>BATTERY 1</td></tr><tr><td>NAME<td>DELL X<tr><td>MAKER<td>LG Chem<tr><td>SERIAL<td>11<tr><td>CHEM<td>LiP<tr><td>DESIGN<td>42,002 mWh<tr><td>FULL<td>0993mWh<tr><td>CYCLES<td>12</table> Recent usage''
   = Inr \<lparr>battery_count = 1, names = [''DELLX''], manufacturers = [''LGChem''], serials = [''11''], chemistries = [''LiP''], design_capacities = [42002], actual_capacities = [993], cycles = [12]\<rparr>
   \<and> information_of_table [['''', ''B1'', ''B2'', ''B3''], [''NAME'', ''D1'', ''D2'', ''D3''], [''MAKER'', ''SMP'', ''LG'', ''BYD''], [''SERIAL'', ''101'', ''102'', ''103''], [''CHEM'', ''LiP'', ''LION'', ''Li-I''], [''DESIGN'', ''42,002mWh'', ''0993mWh'', ''1.109''], [''FULL'', ''36,001mWh'', ''900mWh'', ''1000''], [''CYCLES'', ''12'', ''7'', ''0'']]
   = Inr \<lparr>battery_count = 3, names = [''D1'', ''D2'', ''D3''], manufacturers = [''SMP'', ''LG'', ''BYD''], serials = [''101'', ''102'', ''103''], chemistries = [''LiP'', ''LION'', ''Li-I''], design_capacities = [42002, 993, 1109], actual_capacities = [36001, 900, 1000], cycles = [12, 7, 0]\<rparr>"
proof -
  have e: "information_of_table [['''', ''B1'', ''B2'', ''B3''], [''NAME'', ''D1'', ''D2'', ''D3''], [''MAKER'', ''SMP'', ''LG'', ''BYD''], [''SERIAL'', ''101'', ''102'', ''103''], [''CHEM'', ''LiP'', ''LION'', ''Li-I''], [''DESIGN'', ''42,002mWh'', ''0993mWh'', ''1.109''], [''FULL'', ''36,001mWh'', ''900mWh'', ''1000''], [''CYCLES'', ''12'', ''7'', ''0'']]
    = Inr \<lparr>battery_count = 3, names = [''D1'', ''D2'', ''D3''], manufacturers = [''SMP'', ''LG'', ''BYD''], serials = [''101'', ''102'', ''103''], chemistries = [''LiP'', ''LION'', ''Li-I''], design_capacities = [42002, 993, 1109], actual_capacities = [36001, 900, 1000], cycles = [12, 7, 0]\<rparr>"
    by code_simp
  from battery_information_columns
    [of "''Installed batteries <table><tr><td></td><td>BATTERY 1</td></tr><tr><td>NAME<td>DELL X<tr><td>MAKER<td>LG Chem<tr><td>SERIAL<td>11<tr><td>CHEM<td>LiP<tr><td>DESIGN<td>42,002 mWh<tr><td>FULL<td>0993mWh<tr><td>CYCLES<td>12</table> Recent usage''"
        "'' <table><tr><td></td><td>BATTERY 1</td></tr><tr><td>NAME<td>DELL X<tr><td>MAKER<td>LG Chem<tr><td>SERIAL<td>11<tr><td>CHEM<td>LiP<tr><td>DESIGN<td>42,002 mWh<tr><td>FULL<td>0993mWh<tr><td>CYCLES<td>12</table> ''"
        "[['''', ''BATTERY1''], [''NAME'', ''DELLX''], [''MAKER'', ''LGChem''], [''SERIAL'', ''11''], [''CHEM'', ''LiP''], [''DESIGN'', ''42,002mWh''], [''FULL'', ''0993mWh''], [''CYCLES'', ''12'']]"]
    sample_section sample_table sample_information
  have "get_battery_information ''Installed batteries <table><tr><td></td><td>BATTERY 1</td></tr><tr><td>NAME<td>DELL X<tr><td>MAKER<td>LG Chem<tr><td>SERIAL<td>11<tr><td>CHEM<td>LiP<tr><td>DESIGN<td>42,002 mWh<tr><td>FULL<td>0993mWh<tr><td>CYCLES<td>12</table> Recent usage''
    = Inr \<lparr>battery_count = 1, names = [''DELLX''], manufacturers = [''LGChem''], serials = [''11''], chemistries = [''LiP''], design_capacities = [42002], actual_capacities = [993], cycles = [12]\<rparr>"
    by simp
  moreover from battery_information_columns
    [of _ _ "[['''', ''B1'', ''B2'', ''B3''], [''NAME'', ''D1'', ''D2'', ''D3''], [''MAKER'', ''SMP'', ''LG'', ''BYD''], [''SERIAL'', ''101'', ''102'', ''103''], [''CHEM'', ''LiP'', ''LION'', ''Li-I''], [''DESIGN'', ''42,002mWh'', ''0993mWh'', ''1.109''], [''FULL'', ''36,001mWh'', ''900mWh'', ''1000''], [''CYCLES'', ''12'', ''7'', ''0'']]" 3] e
  have "information_of_table [['''', ''B1'', ''B2'', ''B3''], [''NAME'', ''D1'', ''D2'', ''D3''], [''MAKER'', ''SMP'', ''LG'', ''BYD''], [''SERIAL'', ''101'', ''102'', ''103''], [''CHEM'', ''LiP'', ''LION'', ''Li-I''], [''DESIGN'', ''42,002mWh'', ''0993mWh'', ''1.109''], [''FULL'', ''36,001mWh'', ''900mWh'', ''1000''], [''CYCLES'', ''12'', ''7'', ''0'']]
    = Inr \<lparr>battery_count = 3, names = [''D1'', ''D2'', ''D3''], manufacturers = [''SMP'', ''LG'', ''BYD''], serials = [''101'', ''102'', ''103''], chemistries = [''LiP'', ''LION'', ''Li-I''], design_capacities = [42002, 993, 1109], actual_capacities = [36001, 900, 1000], cycles = [12, 7, 0]\<rparr>"
    by simp
  ultimately show ?thesis by simp
qed

text \<open>
  C7 as the specification states it fails: a cycle count cell without a digit, such as
  \<open>-\<close>, makes \<^verbatim>\<open>__str_to_int\<close> raise, and the extractor returns nothing although
  the table has 8 rows of 2 cells each.
\<close>

theorem battery_information_raises_counterexample:
  "battery_info ''Installed batteries<table><tr><td><td>B 1<tr><td>NAME<td>X<tr><td>MAKER<td>Y<tr><td>SERIAL<td>1<tr><td>CHEM<td>Li<tr><td>DESIGN<td>42 mWh<tr><td>FULL<td>40 mWh<tr><td>CYCLES<td>-</table>Recent usage''
     = Inr ''<table><tr><td><td>B 1<tr><td>NAME<td>X<tr><td>MAKER<td>Y<tr><td>SERIAL<td>1<tr><td>CHEM<td>Li<tr><td>DESIGN<td>42 mWh<tr><td>FULL<td>40 mWh<tr><td>CYCLES<td>-</table>''
   \<and> extract_html_table ''<table><tr><td><td>B 1<tr><td>NAME<td>X<tr><td>MAKER<td>Y<tr><td>SERIAL<td>1<tr><td>CHEM<td>Li<tr><td>DESIGN<td>42 mWh<tr><td>FULL<td>40 mWh<tr><td>CYCLES<td>-</table>''
     = Inr [['''', ''B1''], [''NAME'', ''X''], [''MAKER'', ''Y''], [''SERIAL'', ''1''], [''CHEM'', ''Li''], [''DESIGN'', ''42mWh''], [''FULL'', ''40mWh''], [''CYCLES'', ''-'']]
   \<and> length [['''', ''B1''], [''NAME'', ''X''], [''MAKER'', ''Y''], [''SERIAL'', ''1''], [''CHEM'', ''Li''], [''DESIGN'', ''42mWh''], [''FULL'', ''40mWh''], [''CYCLES'', ''-'']] = 8
   \<and> map length [['''', ''B1''], [''NAME'', ''X''], [''MAKER'', ''Y''], [''SERIAL'', ''1''], [''CHEM'', ''Li''], [''DESIGN'', ''42mWh''], [''FULL'', ''40mWh''], [''CYCLES'', ''-'']] = [2, 2, 2, 2, 2, 2, 2, 2]
   \<and> str_to_int ''-'' = Inl ValueError
   \<and> get_battery_information ''Installed batteries<table><tr><td><td>B 1<tr><td>NAME<td>X<tr><td>MAKER<td>Y<tr><td>SERIAL<td>1<tr><td>CHEM<td>Li<tr><td>DESIGN<td>42 mWh<tr><td>FULL<td>40 mWh<tr><td>CYCLES<td>-</table>Recent usage''
     = Inl ValueError"
proof -
  have s: "battery_info ''Installed batteries<table><tr><td><td>B 1<tr><td>NAME<td>X<tr><td>MAKER<td>Y<tr><td>SERIAL<td>1<tr><td>CHEM<td>Li<tr><td>DESIGN<td>42 mWh<tr><td>FULL<td>40 mWh<tr><td>CYCLES<td>-</table>Recent usage''
     = Inr ''<table><tr><td><td>B 1<tr><td>NAME<td>X<tr><td>MAKER<td>Y<tr><td>SERIAL<td>1<tr><td>CHEM<td>Li<tr><td>DESIGN<td>42 mWh<tr><td>FULL<td>40 mWh<tr><td>CYCLES<td>-</table>''"
    by code_simp
  have t: "extract_html_table ''<table><tr><td><td>B 1<tr><td>NAME<td>X<tr><td>MAKER<td>Y<tr><td>SERIAL<td>1<tr><td>CHEM<td>Li<tr><td>DESIGN<td>42 mWh<tr><td>FULL<td>40 mWh<tr><td>CYCLES<td>-</table>''
     = Inr [['''', ''B1''], [''NAME'', ''X''], [''MAKER'', ''Y''], [''SERIAL'', ''1''], [''CHEM'', ''Li''], [''DESIGN'', ''42mWh''], [''FULL'', ''40mWh''], [''CYCLES'', ''-'']]"
    by code_simp
  have i: "information_of_table [['''', ''B1''], [''NAME'', ''X''], [''MAKER'', ''Y''], [''SERIAL'', ''1''], [''CHEM'', ''Li''], [''DESIGN'', ''42mWh''], [''FULL'', ''40mWh''], [''CYCLES'', ''-'']]
     = Inl ValueError"
    by code_simp
  have c: "str_to_int ''-'' = Inl ValueError" by code_simp
  from s t i have "get_battery_information ''Installed batteries<table><tr><td><td>B 1<tr><td>NAME<td>X<tr><td>MAKER<td>Y<tr><td>SERIAL<td>1<tr><td>CHEM<td>Li<tr><td>DESIGN<td>42 mWh<tr><td>FULL<td>40 mWh<tr><td>CYCLES<td>-</table>Recent usage''
     = Inl ValueError"
    by (simp add: get_battery_information_def and_then_def)
  with s t c show ?thesis by simp
qed

theorem cells_without_whitespace_witness:
  "extract_html_table '' <table><tr><td></td><td>BATTERY 1</td></tr><tr><td>NAME<td>DELL X<tr><td>MAKER<td>LG Chem<tr><td>SERIAL<td>11<tr><td>CHEM<td>LiP<tr><td>DESIGN<td>42,002 mWh<tr><td>FULL<td>0993mWh<tr><td>CYCLES<td>12</table> ''
   = Inr [['''', ''BATTERY1''], [''NAME'', ''DELLX''], [''MAKER'', ''LGChem''], [''SERIAL'', ''11''], [''CHEM'', ''LiP''], [''DESIGN'', ''42,002mWh''], [''FULL'', ''0993mWh''], [''CYCLES'', ''12'']]
   \<and> no_whitespace ''BATTERY1'' \<and> no_whitespace ''LGChem''
   \<and> get_battery_information ''Installed batteries <table><tr><td></td><td>BATTERY 1</td></tr><tr><td>NAME<td>DELL X<tr><td>MAKER<td>LG Chem<tr><td>SERIAL<td>11<tr><td>CHEM<td>LiP<tr><td>DESIGN<td>42,002 mWh<tr><td>FULL<td>0993mWh<tr><td>CYCLES<td>12</table> Recent usage''
   = Inr \<lparr>battery_count = 1, names = [''DELLX''], manufacturers = [''LGChem''], serials = [''11''], chemistries = [''LiP''], design_capacities = [42002], actual_capacities = [993], cycles = [12]\<rparr>"
proof -
  have g: "get_battery_information ''Installed batteries <table><tr><td></td><td>BATTERY 1</td></tr><tr><td>NAME<td>DELL X<tr><td>MAKER<td>LG Chem<tr><td>SERIAL<td>11<tr><td>CHEM<td>LiP<tr><td>DESIGN<td>42,002 mWh<tr><td>FULL<td>0993mWh<tr><td>CYCLES<td>12</table> Recent usage''
    = Inr \<lparr>battery_count = 1, names = [''DELLX''], manufacturers = [''LGChem''], serials = [''11''], chemistries = [''LiP''], design_capacities = [42002], actual_capacities = [993], cycles = [12]\<rparr>"
    using sample_section sample_table sample_information
    by (simp add: get_battery_information_def and_then_def)
  from cells_without_whitespace
    [of "'' <table><tr><td></td><td>BATTERY 1</td></tr><tr><td>NAME<td>DELL X<tr><td>MAKER<td>LG Chem<tr><td>SERIAL<td>11<tr><td>CHEM<td>LiP<tr><td>DESIGN<td>42,002 mWh<tr><td>FULL<td>0993mWh<tr><td>CYCLES<td>12</table> ''"
        "[['''', ''BATTERY1''], [''NAME'', ''DELLX''], [''MAKER'', ''LGChem''], [''SERIAL'', ''11''], [''CHEM'', ''LiP''], [''DESIGN'', ''42,002mWh''], [''FULL'', ''0993mWh''], [''CYCLES'', ''12'']]"
        "''Installed batteries <table><tr><td></td><td>BATTERY 1</td></tr><tr><td>NAME<td>DELL X<tr><td>MAKER<td>LG Chem<tr><td>SERIAL<td>11<tr><td>CHEM<td>LiP<tr><td>DESIGN<td>42,002 mWh<tr><td>FULL<td>0993mWh<tr><td>CYCLES<td>12</table> Recent usage''"
        "\<lparr>battery_count = 1, names = [''DELLX''], manufacturers = [''LGChem''], serials = [''11''], chemistries = [''LiP''], design_capacities = [42002], actual_capacities = [993], cycles = [12]\<rparr>"]
    sample_table g
  have "no_whitespace ''BATTERY1'' \<and> no_whitespace ''LGChem''"
    by simp
  with sample_table g show ?thesis by simp
qed

subsection \<open>Integers from text\<close>

lemma char_codes:
  "(of_char (CHR '' '') :: nat) = 32" "(of_char (CHR ''-'') :: nat) = 45"
  "(of_char (CHR ''+'') :: nat) = 43" "(of_char (CHR ''_'') :: nat) = 95"
  "(of_char (CHR 0x85) :: nat) = 133" "(of_char (CHR 0xA0) :: nat) = 160"
  by simp_all

lemma is_decimal_not_other:
  assumes "is_decimal c"
  shows "\<not> int_space c" "c \<noteq> CHR ''-''" "c \<noteq> CHR ''+''" "c \<noteq> CHR ''_''"
  using assms char_codes by (auto simp: is_decimal_def int_space_def)

lemma digits_ok_decimal: "ds \<noteq> [] \<Longrightarrow> \<forall>c\<in>set ds. is_decimal c \<Longrightarrow> digits_ok ds"
  by (induction ds rule: digits_ok.induct) (auto dest: is_decimal_not_other)

lemma dropWhile_hd: "xs \<noteq> [] \<Longrightarrow> \<not> P (hd xs) \<Longrightarrow> dropWhile P xs = xs"
  by (cases xs) auto

lemma py_int_decimal:
  assumes "ds \<noteq> []" "\<forall>c\<in>set ds. is_decimal c"
  shows "py_int ds = Inr (dec_value ds)"
proof -
  from assms have h: "is_decimal (hd ds)" and l: "is_decimal (last ds)" by auto
  have 1: "dropWhile int_space ds = ds"
    using assms(1) h by (intro dropWhile_hd) (auto dest: is_decimal_not_other)
  have "dropWhile int_space (rev ds) = rev ds"
    using assms(1) l by (intro dropWhile_hd) (auto simp: hd_rev dest: is_decimal_not_other)
  with 1 have 2: "rev (dropWhile int_space (rev (dropWhile int_space ds))) = ds" by simp
  have 3: "hd ds \<noteq> CHR ''-''" "hd ds \<noteq> CHR ''+''"
    using h by (auto dest: is_decimal_not_other)
  have 4: "filter (\<lambda>c. c \<noteq> CHR ''_'') ds = ds"
    using assms(2) by (auto simp: filter_id_conv dest: is_decimal_not_other)
  from digits_ok_decimal [OF assms] 2 3 4 show ?thesis
    by (simp add: py_int_def Let_def)
qed

lemma py_int_empty: "py_int [] = Inl ValueError"
  by (simp add: py_int_def)

lemma dec_value_nonneg_aux:
  "0 \<le> a \<Longrightarrow> \<forall>c\<in>set ds. is_decimal c \<Longrightarrow> 0 \<le> foldl (\<lambda>acc c. 10 * acc + digit_val c) a ds"
  by (induction ds arbitrary: a) (auto simp: is_decimal_def digit_val_def)

lemma dec_value_nonneg: "\<forall>c\<in>set ds. is_decimal c \<Longrightarrow> 0 \<le> dec_value ds"
  unfolding dec_value_def by (rule dec_value_nonneg_aux) simp_all

text \<open>
  On a string in which every character that \<^verbatim>\<open>isdigit\<close> accepts is a decimal digit,
  \<^verbatim>\<open>__str_to_int\<close> is the value of the decimal digits in their order, and a ValueError
  when there is none.
\<close>

lemma str_to_int_decimal_digits:
  assumes "\<forall>c\<in>set s. py_isdigit c \<longrightarrow> is_decimal c"
  shows "str_to_int s =
    (if filter is_decimal s = [] then Inl ValueError else Inr (dec_value (filter is_decimal s)))"
    and "0 \<le> dec_value (filter is_decimal s)"
proof -
  from assms have "filter py_isdigit s = filter is_decimal s"
    by (intro filter_cong) (auto simp: py_isdigit_def)
  then show "str_to_int s =
    (if filter is_decimal s = [] then Inl ValueError else Inr (dec_value (filter is_decimal s)))"
    by (simp add: str_to_int_def py_int_empty py_int_decimal)
  show "0 \<le> dec_value (filter is_decimal s)" by (rule dec_value_nonneg) simp
qed

lemma str_to_int_examples:
  "str_to_int ''0993mWh'' = Inr 993" "str_to_int ''1.109'' = Inr 1109"
  "str_to_int ''abc'' = Inl ValueError"
  by code_simp+

text \<open>
  C4 fails on the code for a string with a superscript digit: \<^verbatim>\<open>isdigit\<close> keeps
  U+00B2, which \<^verbatim>\<open>int\<close> rejects, so the string \<open>1\<close> followed by U+00B2 raises a
  ValueError although its only decimal digit is \<open>1\<close>.
\<close>

theorem str_to_int_superscript_digit:
  "str_to_int [CHR ''1'', CHR 0xB2] = Inl ValueError
   \<and> filter is_decimal [CHR ''1'', CHR 0xB2] = ''1''
   \<and> dec_value ''1'' = 1"
  by code_simp

subsection \<open>Dates\<close>

lemma in_digits_val: "in_digits c lo hi \<Longrightarrow> int lo \<le> digit_val c \<and> digit_val c \<le> int hi"
  by (auto simp: in_digits_def digit_val_def)

lemma parse_year_range: "parse_year s = Some (y, r) \<Longrightarrow> 0 \<le> y \<and> y \<le> 9999"
proof (induction s rule: parse_year.induct)
  case (1 a b c d e rest)
  then have "in_digits a 0 9" "in_digits b 0 9" "in_digits c 0 9" "in_digits d 0 9"
    and y: "y = dec_value [a, b, c, d]"
    by (auto split: if_splits)
  from this(1-4) [THEN in_digits_val] y show ?case
    by (simp add: dec_value_def)
qed simp_all

lemma parse_month_range: "parse_month s = Some (m, r) \<Longrightarrow> 1 \<le> m \<and> m \<le> 12"
  by (induction s rule: parse_month.induct) (auto split: if_splits dest!: in_digits_val)

lemma parse_day_range: "parse_day s = Some (d, r) \<Longrightarrow> 1 \<le> d \<and> d \<le> 31"
  by (induction s rule: parse_day.induct) (auto split: if_splits dest!: in_digits_val)

lemma strptime_ymd_valid:
  assumes "strptime_ymd s = Inr d"
  shows "valid_date d"
proof -
  from assms obtain y r1 m r2 dd r3 where
    p: "parse_year s = Some (y, r1)" "parse_month r1 = Some (m, r2)" "parse_day r2 = Some (dd, r3)"
    and c: "\<not> (r3 \<noteq> [] \<or> y < 1 \<or> days_in_month y m < dd)"
    and d: "d = \<lparr>year = y, month = m, day = dd\<rparr>"
    unfolding strptime_ymd_def by (auto split: option.splits if_splits)
  from parse_year_range [OF p(1)] parse_month_range [OF p(2)] parse_day_range [OF p(3)] c d
  show ?thesis by (simp add: valid_date_def)
qed

lemma day_of_year_bounds:
  assumes "1 \<le> m" "m \<le> 12" "1 \<le> d" "d \<le> days_in_month y m"
  shows "1 \<le> days_before_month y m + d
    \<and> days_before_month y m + d \<le> 365 + (if is_leap y then 1 else 0)"
proof -
  from assms(1,2) have "m = 1 \<or> m = 2 \<or> m = 3 \<or> m = 4 \<or> m = 5 \<or> m = 6
      \<or> m = 7 \<or> m = 8 \<or> m = 9 \<or> m = 10 \<or> m = 11 \<or> m = 12"
    by arith
  then show ?thesis
    using assms(3,4)
    by (elim disjE) (simp_all add: days_before_month_def days_in_month_def split: if_splits)
qed



lemma days_before_year_lower:
  assumes "1 \<le> y"
  shows "0 \<le> days_before_year y"
proof -
  define x where "x = y - 1"
  have "0 \<le> x" using assms by (simp add: x_def)
  then have "x div 100 \<le> x div 4" "0 \<le> x div 400"
    by (auto intro: div_le_mono zdiv_mono2)
  with \<open>0 \<le> x\<close> show ?thesis
    by (simp add: days_before_year_def x_def [symmetric])
qed

lemma days_before_year_upper:
  assumes "1 \<le> y" "y \<le> 9999"
  shows "days_before_year y + 365 + (if is_leap y then 1 else 0) \<le> 3652059"
proof (cases "y = 9999")
  case True
  then show ?thesis by (simp add: days_before_year_def is_leap_def)
next
  case False
  define x where "x = y - 1"
  from False assms have x: "0 \<le> x" "x \<le> 9997" by (simp_all add: x_def)
  have 1: "4 * (x div 4) \<le> x" and 2: "400 * (x div 400) \<le> x" and 3: "x - 99 \<le> 100 * (x div 100)"
    by presburger+
  from x 1 2 3 have "days_before_year y \<le> 3651330"
    by (simp add: days_before_year_def x_def [symmetric])
  then show ?thesis by simp
qed


lemma toordinal_bounds:
  assumes "valid_date d"
  shows "1 \<le> toordinal d" "toordinal d \<le> 3652059"
proof -
  from assms have v: "1 \<le> year d" "year d \<le> 9999" "1 \<le> month d" "month d \<le> 12"
    "1 \<le> day d" "day d \<le> days_in_month (year d) (month d)"
    by (auto simp: valid_date_def)
  note a = day_of_year_bounds [OF v(3-6)]
  note b = days_before_year_lower [OF v(1)] days_before_year_upper [OF v(1,2)]
  from a b(1) show "1 \<le> toordinal d" by (simp add: toordinal_def)
  from a b(2) show "toordinal d \<le> 3652059" by (simp add: toordinal_def split: if_splits)
qed

text \<open>The ordinal of the date that \<^verbatim>\<open>fromordinal\<close> returns is the ordinal given.\<close>

lemma div_mod_decomp:
  fixes k r m :: int
  assumes "0 \<le> r" "r < m"
  shows "(m * k + r) div m = k" "(m * k + r) mod m = r"
  using assms by (simp_all add: div_pos_pos_trivial mod_pos_pos_trivial)

lemma year_decomposition:
  fixes a b c e :: int
  assumes "0 \<le> a" "0 \<le> b" "b < 4" "0 \<le> c" "c < 25" "0 \<le> e" "e < 4"
  shows "days_before_year (400 * a + 100 * b + 4 * c + e + 1)
           = 146097 * a + 36524 * b + 1461 * c + 365 * e"
    and "is_leap (400 * a + 100 * b + 4 * c + e + 1) \<longleftrightarrow> (e = 3 \<and> (c \<noteq> 24 \<or> b = 3))"
proof -
  define x where "x = 400 * a + 100 * b + 4 * c + e"
  have x4: "x = 4 * (100 * a + 25 * b + c) + e"
    and x100: "x = 100 * (4 * a + b) + (4 * c + e)"
    and x400: "x = 400 * a + (100 * b + 4 * c + e)"
    by (simp_all add: x_def)
  have 1: "x div 4 = 100 * a + 25 * b + c"
    unfolding x4 using assms by (intro div_mod_decomp) simp_all
  have 2: "x div 100 = 4 * a + b"
    unfolding x100 using assms by (intro div_mod_decomp) simp_all
  have 3: "x div 400 = a"
    unfolding x400 using assms by (intro div_mod_decomp) simp_all
  have "days_before_year (x + 1) = x * 365 + x div 4 - x div 100 + x div 400"
    by (simp add: days_before_year_def)
  also have "\<dots> = 146097 * a + 36524 * b + 1461 * c + 365 * e"
    unfolding 1 2 3 by (simp add: x_def)
  finally show "days_before_year (400 * a + 100 * b + 4 * c + e + 1)
           = 146097 * a + 36524 * b + 1461 * c + 365 * e"
    by (simp add: x_def)
  have y4: "x + 1 = 4 * (100 * a + 25 * b + c) + (e + 1)"
    and y100: "x + 1 = 100 * (4 * a + b) + (4 * c + e + 1)"
    and y400: "x + 1 = 400 * a + (100 * b + 4 * c + e + 1)"
    by (simp_all add: x_def)
  have 4: "(x + 1) mod 4 = 0 \<longleftrightarrow> e = 3"
  proof (cases "e = 3")
    case True
    have "x + 1 = 4 * (100 * a + 25 * b + c + 1)" using True by (simp add: x_def)
    with True show ?thesis by simp
  next
    case False
    with assms have "e + 1 < 4" by simp
    with assms have "(x + 1) mod 4 = e + 1" unfolding y4 by (intro div_mod_decomp) simp_all
    with False assms show ?thesis by simp
  qed
  have 5: "(x + 1) mod 100 = 0 \<longleftrightarrow> (c = 24 \<and> e = 3)"
  proof (cases "c = 24 \<and> e = 3")
    case True
    have "x + 1 = 100 * (4 * a + b + 1)" using True by (simp add: x_def)
    with True show ?thesis by simp
  next
    case False
    with assms have "4 * c + e + 1 < 100" by auto
    with assms have "(x + 1) mod 100 = 4 * c + e + 1" unfolding y100 by (intro div_mod_decomp) simp_all
    with False assms show ?thesis by auto
  qed
  have 6: "(x + 1) mod 400 = 0 \<longleftrightarrow> (b = 3 \<and> c = 24 \<and> e = 3)"
  proof (cases "b = 3 \<and> c = 24 \<and> e = 3")
    case True
    have "x + 1 = 400 * (a + 1)" using True by (simp add: x_def)
    with True show ?thesis by simp
  next
    case False
    with assms have "100 * b + 4 * c + e + 1 < 400" by auto
    with assms have "(x + 1) mod 400 = 100 * b + 4 * c + e + 1"
      unfolding y400 by (intro div_mod_decomp) simp_all
    with False assms show ?thesis by auto
  qed
  have "400 * a + 100 * b + 4 * c + e + 1 = x + 1" by (simp add: x_def)
  then show "is_leap (400 * a + 100 * b + 4 * c + e + 1) \<longleftrightarrow> (e = 3 \<and> (c \<noteq> 24 \<or> b = 3))"
    unfolding is_leap_def using 4 5 6 by auto
qed

lemma month_day_of_year:
  assumes n: "0 \<le> n" "n < 365" and md: "month_day (is_leap y) n = (m, d)"
  shows "1 \<le> m \<and> m \<le> 12 \<and> days_before_month y m + d = n + 1"
proof -
  define m0 where "m0 = (n + 50) div 32"
  define r where "r = (n + 50) mod 32"
  have r: "0 \<le> r" "r < 32" by (simp_all add: r_def)
  have e: "n + 50 = 32 * m0 + r" by (simp add: m0_def r_def)
  from n r e have "1 \<le> m0" "m0 \<le> 12" by arith+
  then have "m0 = 1 \<or> m0 = 2 \<or> m0 = 3 \<or> m0 = 4 \<or> m0 = 5 \<or> m0 = 6
      \<or> m0 = 7 \<or> m0 = 8 \<or> m0 = 9 \<or> m0 = 10 \<or> m0 = 11 \<or> m0 = 12"
    by arith
  then show ?thesis
    using md n r e unfolding month_day_def m0_def [symmetric] Let_def
    by (elim disjE) (auto simp: days_before_month_def split: if_splits)
qed

lemma toordinal_fromordinal:
  assumes "1 \<le> n"
  shows "toordinal (fromordinal n) = n"
proof -
  define n0 where "n0 = n - 1"
  define a where "a = n0 div 146097"
  define r1 where "r1 = n0 mod 146097"
  define b where "b = r1 div 36524"
  define r2 where "r2 = r1 mod 36524"
  define c where "c = r2 div 1461"
  define r3 where "r3 = r2 mod 1461"
  define e where "e = r3 div 365"
  define r4 where "r4 = r3 mod 365"
  have q1: "n0 = 146097 * a + r1" "0 \<le> r1" "r1 < 146097" by (simp_all add: a_def r1_def)
  have q2: "r1 = 36524 * b + r2" "0 \<le> r2" "r2 < 36524" by (simp_all add: b_def r2_def)
  have q3: "r2 = 1461 * c + r3" "0 \<le> r3" "r3 < 1461" by (simp_all add: c_def r3_def)
  have q4: "r3 = 365 * e + r4" "0 \<le> r4" "r4 < 365" by (simp_all add: e_def r4_def)
  from assms have n0: "0 \<le> n0" by (simp add: n0_def)
  from n0 q1 have a: "0 \<le> a" by arith
  from q1 q2 have b: "0 \<le> b" "b \<le> 4" by arith+
  from q2 q3 have c: "0 \<le> c" "c \<le> 24" by arith+
  from q3 q4 have e: "0 \<le> e" "e \<le> 4" by arith+
  define y where "y = a * 400 + 1 + b * 100 + c * 4 + e"
  have f: "fromordinal n =
    (if e = 4 \<or> b = 4 then \<lparr>year = y - 1, month = 12, day = 31\<rparr>
     else let (m, d) = month_day (e = 3 \<and> (c \<noteq> 24 \<or> b = 3)) r4
          in \<lparr>year = y, month = m, day = d\<rparr>)"
    unfolding fromordinal_def Let_def
    by (simp only: n0_def [symmetric] a_def [symmetric] r1_def [symmetric] b_def [symmetric]
        r2_def [symmetric] c_def [symmetric] r3_def [symmetric] e_def [symmetric]
        r4_def [symmetric] y_def [symmetric])
  have n: "n = 146097 * a + 36524 * b + 1461 * c + 365 * e + r4 + 1"
    using q1(1) q2(1) q3(1) q4(1) by (simp add: n0_def)
  show ?thesis
  proof (cases "b = 4")
    case True
    with q1 q2 have "r2 = 0" by arith
    with q3 q4 c e have z: "c = 0" "e = 0" "r4 = 0" by arith+
    have "y - 1 = 400 * a + 100 * 3 + 4 * 24 + 3 + 1" using True z by (simp add: y_def)
    with year_decomposition [of a 3 24 3] a
    have "days_before_year (y - 1) = 146097 * a + 36524 * 3 + 1461 * 24 + 365 * 3"
      "is_leap (y - 1)" by simp_all
    with True z n f show ?thesis
      by (simp add: toordinal_def days_before_month_def)
  next
    case b4: False
    with b have b3: "b < 4" by simp
    show ?thesis
    proof (cases "e = 4")
      case True
      with q3 q4 have r4: "r4 = 0" by arith
      from True q3 q4 q2 have c23: "c < 24" by arith
      have "y - 1 = 400 * a + 100 * b + 4 * c + 3 + 1" using True by (simp add: y_def)
      with year_decomposition [of a b c 3] a b(1) b3 c(1) c23
      have "days_before_year (y - 1) = 146097 * a + 36524 * b + 1461 * c + 365 * 3"
        "is_leap (y - 1)" by simp_all
      with True r4 n f show ?thesis
        by (simp add: toordinal_def days_before_month_def)
    next
      case False
      with e have e3: "e < 4" by simp
      have yy: "y = 400 * a + 100 * b + 4 * c + e + 1" by (simp add: y_def)
      from c have c25: "c < 25" by simp
      from year_decomposition [of a b c e] a b(1) b3 c(1) c25 e(1) e3 yy
      have d: "days_before_year y = 146097 * a + 36524 * b + 1461 * c + 365 * e"
        and l: "is_leap y \<longleftrightarrow> (e = 3 \<and> (c \<noteq> 24 \<or> b = 3))" by simp_all
      obtain m dd where md: "month_day (is_leap y) r4 = (m, dd)" by (cases "month_day (is_leap y) r4")
      from month_day_of_year [OF q4(2,3) md] have "days_before_month y m + dd = r4 + 1" by simp
      moreover from f False b4 l md have "fromordinal n = \<lparr>year = y, month = m, day = dd\<rparr>"
        by simp
      ultimately show ?thesis using d n by (simp add: toordinal_def)
    qed
  qed
qed

lemma midpoint_arithmetic:
  fixes D :: int
  shows "(D * 86400000000) div 86400000000 = D"
    and "divide_and_round (D * 86400000000) 2 = D * 43200000000"
    and "(D * 43200000000) div 86400000000 = D div 2"
proof -
  show "(D * 86400000000) div 86400000000 = D" by simp
  have "D * 86400000000 = 2 * (D * 43200000000)" by simp
  then have "(D * 86400000000) div 2 = D * 43200000000" "(D * 86400000000) mod 2 = 0"
    by simp_all
  then show "divide_and_round (D * 86400000000) 2 = D * 43200000000"
    by (simp add: divide_and_round_def Let_def)
  have "(D * 43200000000) div (2 * 43200000000) = D div 2"
    by (simp only: div_mult_mult2)
  then show "(D * 43200000000) div 86400000000 = D div 2" by simp
qed

lemma midpoint_of_dates:
  assumes "valid_date date_1" "valid_date date_2"
  shows "and_then (date_sub date_2 date_1) (\<lambda>span.
         and_then (td_truediv span 2) (\<lambda>half. date_add date_1 half))
       = Inr (fromordinal (toordinal date_1 + (toordinal date_2 - toordinal date_1) div 2))"
proof -
  define D where "D = toordinal date_2 - toordinal date_1"
  note b1 = toordinal_bounds [OF assms(1)] and b2 = toordinal_bounds [OF assms(2)]
  from b1 b2 have D: "\<bar>D\<bar> \<le> 999999999" "\<bar>D div 2\<bar> \<le> 999999999"
    by (auto simp: D_def)
  have 1: "date_sub date_2 date_1 = Inr (Timedelta (D * 86400000000))"
    using D(1) by (simp add: date_sub_def timedelta_of_days_def mk_timedelta_def
        midpoint_arithmetic(1) D_def [symmetric])
  have 2: "td_truediv (Timedelta (D * 86400000000)) 2 = Inr (Timedelta (D * 43200000000))"
    using D(2) by (simp add: td_truediv_def mk_timedelta_def midpoint_arithmetic(2,3))
  from b1 b2 have "0 < toordinal date_1 + D div 2" "toordinal date_1 + D div 2 \<le> 3652059"
    by (auto simp: D_def)
  then have 3: "date_add date_1 (Timedelta (D * 43200000000))
      = Inr (fromordinal (toordinal date_1 + D div 2))"
    by (simp add: date_add_def td_days_def midpoint_arithmetic(3) Let_def)
  from 1 2 3 show ?thesis by (simp add: and_then_def D_def)
qed

text \<open>
  C2. With exactly five \<open>-\<close> characters, \<^verbatim>\<open>__extract_date\<close> parses the first ten
  characters and the ten characters from index 11 (the character at index 10 is not
  looked at), fails as \<^verbatim>\<open>strptime\<close> fails when one of them is not a date, and
  otherwise returns the date whose ordinal is that of the first date plus half the
  span in days, rounded down: the half day of an odd span is dropped by the addition
  of a date and a timedelta, and no step overflows.
\<close>

theorem extract_date_range_midpoint:
  assumes "count_list date_str (CHR ''-'') = 5"
  shows "extract_date date_str =
     and_then (strptime_ymd (take 10 date_str)) (\<lambda>date_1.
     and_then (strptime_ymd (take 10 (drop 11 date_str))) (\<lambda>date_2.
       Inr (fromordinal (toordinal date_1 + (toordinal date_2 - toordinal date_1) div 2))))
   \<and> (\<forall>date_1 date_2.
         strptime_ymd (take 10 date_str) = Inr date_1
         \<and> strptime_ymd (take 10 (drop 11 date_str)) = Inr date_2 \<longrightarrow>
         (\<exists>d. extract_date date_str = Inr d
            \<and> toordinal d = toordinal date_1 + (toordinal date_2 - toordinal date_1) div 2))"
proof -
  from assms have e: "extract_date date_str =
     and_then (strptime_ymd (take 10 date_str)) (\<lambda>date_1.
     and_then (strptime_ymd (take 10 (drop 11 date_str))) (\<lambda>date_2.
     and_then (date_sub date_2 date_1) (\<lambda>span.
     and_then (td_truediv span 2) (\<lambda>half.
     date_add date_1 half))))"
    by (simp add: extract_date_def py_count_single)
  have 1: "extract_date date_str =
     and_then (strptime_ymd (take 10 date_str)) (\<lambda>date_1.
     and_then (strptime_ymd (take 10 (drop 11 date_str))) (\<lambda>date_2.
       Inr (fromordinal (toordinal date_1 + (toordinal date_2 - toordinal date_1) div 2))))"
  proof (cases "strptime_ymd (take 10 date_str)")
    case (Inl e1)
    with e show ?thesis by (simp add: and_then_def)
  next
    case 1: (Inr date_1)
    show ?thesis
    proof (cases "strptime_ymd (take 10 (drop 11 date_str))")
      case (Inl e2)
      with e 1 show ?thesis by (simp add: and_then_def)
    next
      case 2: (Inr date_2)
      from 1 2 have "valid_date date_1" "valid_date date_2"
        by (auto dest: strptime_ymd_valid)
      from midpoint_of_dates [OF this] e 1 2 show ?thesis
        by (simp add: and_then_def)
    qed
  qed
  have 2: "\<exists>d. extract_date date_str = Inr d
            \<and> toordinal d = toordinal date_1 + (toordinal date_2 - toordinal date_1) div 2"
    if p: "strptime_ymd (take 10 date_str) = Inr date_1"
      "strptime_ymd (take 10 (drop 11 date_str)) = Inr date_2" for date_1 date_2
  proof -
    from p have "valid_date date_1" "valid_date date_2" by (auto dest: strptime_ymd_valid)
    from toordinal_bounds(1) [OF this(1)] toordinal_bounds(1) [OF this(2)]
    have "1 \<le> toordinal date_1 + (toordinal date_2 - toordinal date_1) div 2" by arith
    then have "toordinal (fromordinal (toordinal date_1 + (toordinal date_2 - toordinal date_1) div 2))
        = toordinal date_1 + (toordinal date_2 - toordinal date_1) div 2"
      by (rule toordinal_fromordinal)
    with 1 p show ?thesis by (simp add: and_then_def)
  qed
  from 1 2 show ?thesis by blast
qed

theorem extract_date_range_midpoint_witness:
  "count_list ''2018-01-05-2018-01-07'' (CHR ''-'') = 5
   \<and> extract_date ''2018-01-05-2018-01-07'' = Inr \<lparr>year = 2018, month = 1, day = 6\<rparr>
   \<and> count_list ''2018-01-05-2018-01-08'' (CHR ''-'') = 5
   \<and> extract_date ''2018-01-05-2018-01-08'' = Inr \<lparr>year = 2018, month = 1, day = 6\<rparr>"
proof -
  have c: "count_list ''2018-01-05-2018-01-07'' (CHR ''-'') = 5"
    "count_list ''2018-01-05-2018-01-08'' (CHR ''-'') = 5"
    by simp_all
  have p: "strptime_ymd ''2018-01-05'' = Inr \<lparr>year = 2018, month = 1, day = 5\<rparr>"
    "strptime_ymd ''2018-01-07'' = Inr \<lparr>year = 2018, month = 1, day = 7\<rparr>"
    "strptime_ymd ''2018-01-08'' = Inr \<lparr>year = 2018, month = 1, day = 8\<rparr>"
    by code_simp+
  have o: "toordinal \<lparr>year = 2018, month = 1, day = 5\<rparr> = 736699"
    "toordinal \<lparr>year = 2018, month = 1, day = 7\<rparr> = 736701"
    "toordinal \<lparr>year = 2018, month = 1, day = 8\<rparr> = 736702"
    "fromordinal 736700 = \<lparr>year = 2018, month = 1, day = 6\<rparr>"
    by code_simp+
  from extract_date_range_midpoint [OF c(1), THEN conjunct1] p o
  have "extract_date ''2018-01-05-2018-01-07'' = Inr \<lparr>year = 2018, month = 1, day = 6\<rparr>"
    by (simp add: and_then_def)
  moreover from extract_date_range_midpoint [OF c(2), THEN conjunct1] p o
  have "extract_date ''2018-01-05-2018-01-08'' = Inr \<lparr>year = 2018, month = 1, day = 6\<rparr>"
    by (simp add: and_then_def)
  ultimately show ?thesis using c by simp
qed

text \<open>
  The two dates written one after the other with nothing between them hold four
  \<open>-\<close> characters, not five: that string is not of the range form, and the function
  fails on it.
\<close>

lemma extract_date_without_boundary:
  "count_list ''2018-01-052018-01-07'' (CHR ''-'') = 4"
  "extract_date ''2018-01-052018-01-07'' = Inl UnboundLocalError"
  by code_simp+

subsection \<open>The usage series\<close>

lemma usage_step_skipped: "row_seconds row = None \<Longrightarrow> usage_step st row = Inr st' \<Longrightarrow> st' = st"
  by (auto simp: row_seconds_def usage_step_def and_then_def split: sum.splits if_splits)

lemma usage_step_kept:
  assumes "row_seconds row = Some secs" "usage_step st row = Inr st'"
  shows "microseconds_total (cumulative_usage st')
           = microseconds_total (cumulative_usage st) + secs * 1000000"
    and "usage_hours st' = usage_hours st @ [hours_int (cumulative_usage st')]"
    and "length (dates st') = Suc (length (dates st))"
proof -
  from assms(1) obtain cell where c: "py_index row 1 = Inr cell" "1 < length cell"
    "active_seconds cell = Inr secs" "secs \<le> 604800"
    by (auto simp: row_seconds_def split: sum.splits if_splits)
  with assms(2) obtain delta total date_cell d where
    s: "timedelta_of_seconds secs = Inr delta" "td_add (cumulative_usage st) delta = Inr total"
       "py_index row 0 = Inr date_cell" "extract_date date_cell = Inr d"
       "st' = \<lparr>cumulative_usage = total, dates = dates st @ [d],
               usage_hours = usage_hours st @ [hours_int total]\<rparr>"
    by (auto simp: usage_step_def and_then_Inr)
  from s(1) have "delta = Timedelta (secs * 1000000)"
    by (auto simp: timedelta_of_seconds_def mk_timedelta_def split: if_splits)
  with s(2) have "total = Timedelta (microseconds_total (cumulative_usage st) + secs * 1000000)"
    by (auto simp: td_add_def mk_timedelta_def split: if_splits)
  with s(5) show "microseconds_total (cumulative_usage st')
           = microseconds_total (cumulative_usage st) + secs * 1000000"
    and "usage_hours st' = usage_hours st @ [hours_int (cumulative_usage st')]"
    and "length (dates st') = Suc (length (dates st))"
    by simp_all
qed

lemma trunc_div_hours: "trunc_div (1000000 * t) (1000000 * 60 * 60) = trunc_div t 3600"
proof -
  have "(1000000 * t) div (1000000 * 3600) = t div 3600"
    "(1000000 * (- t)) div (1000000 * 3600) = (- t) div 3600"
    by (simp_all only: div_mult_mult1)
  then show ?thesis by (simp add: trunc_div_def)
qed

lemma usage_loop_result:
  assumes "usage_loop st rows = Inr st'"
    and "microseconds_total (cumulative_usage st) = 1000000 * S"
  shows "microseconds_total (cumulative_usage st') = 1000000 * (S + sum_list (kept_seconds rows))
    \<and> usage_hours st' = usage_hours st
         @ map (\<lambda>t. trunc_div t 3600) (running_totals S (kept_seconds rows))
    \<and> length (dates st') = length (dates st) + length (kept_seconds rows)"
  using assms
proof (induction rows arbitrary: st S)
  case Nil
  then show ?case by simp
next
  case (Cons row rows)
  from Cons.prems(1) obtain st1 where 1: "usage_step st row = Inr st1"
    and 2: "usage_loop st1 rows = Inr st'"
    by (auto split: sum.splits)
  show ?case
  proof (cases "row_seconds row")
    case None
    from None 1 have "st1 = st" by (rule usage_step_skipped)
    moreover from None have "kept_seconds (row # rows) = kept_seconds rows"
      by simp
    ultimately show ?thesis using Cons.IH [of st S] 2 Cons.prems(2) by simp
  next
    case (Some secs)
    note k = usage_step_kept [OF Some 1]
    from k(1) Cons.prems(2)
    have us: "microseconds_total (cumulative_usage st1) = 1000000 * (S + secs)"
      by (simp add: algebra_simps)
    then have h: "hours_int (cumulative_usage st1) = trunc_div (S + secs) 3600"
      by (simp only: hours_int_def trunc_div_hours)
    from Some have ks: "kept_seconds (row # rows) = secs # kept_seconds rows"
      by simp
    from Cons.IH [OF 2 us] k(2,3) h ks show ?thesis
      by (simp add: algebra_simps)
  qed
qed

lemma length_running_totals: "length (running_totals a xs) = length xs"
  by (induction xs arbitrary: a) simp_all

lemma usage_of_table_result:
  assumes "usage_of_table table = Inr (ds, hs)"
  shows "hs = map (\<lambda>t. trunc_div t 3600) (running_totals 0 (kept_seconds (drop 2 table)))"
    and "length ds = length hs"
proof -
  from assms obtain st' where l: "usage_loop usage_start (drop 2 table) = Inr st'"
    and r: "ds = dates st'" "hs = usage_hours st'"
    by (auto simp: usage_of_table_def and_then_Inr)
  have "microseconds_total (cumulative_usage usage_start) = 1000000 * 0"
    by (simp add: usage_start_def)
  from usage_loop_result [OF l this] r
  show "hs = map (\<lambda>t. trunc_div t 3600) (running_totals 0 (kept_seconds (drop 2 table)))"
    and "length ds = length hs"
    by (simp_all add: usage_start_def length_running_totals)
qed

lemma usage_loop_append:
  "usage_loop st (xs @ ys) =
     (case usage_loop st xs of Inl e \<Rightarrow> Inl e | Inr st' \<Rightarrow> usage_loop st' ys)"
  by (induction xs arbitrary: st) (auto split: sum.splits)

lemma usage_step_anomalous:
  assumes "py_index row 1 = Inr cell" "active_seconds cell = Inr secs" "604800 < secs"
  shows "usage_step st row = Inr st"
  using assms by (simp add: usage_step_def and_then_def)

text \<open>
  C5. A row whose active time parses to more than 604800 seconds leaves the state of
  the loop as it is: nothing is added to the accumulator and no date or value is
  appended. The result for a table with such a data row is the result for the table
  without it, so the dates and values of the other rows stay paired as before.
\<close>

theorem anomalous_row_discarded:
  assumes "py_index row 1 = Inr cell" "active_seconds cell = Inr secs" "604800 < secs"
    and "2 \<le> length head"
  shows "usage_step st row = Inr st
    \<and> usage_of_table (head @ row # rest) = usage_of_table (head @ rest)"
proof -
  have s: "usage_step st' row = Inr st'" for st'
    using assms(1-3) by (rule usage_step_anomalous)
  have "usage_loop usage_start (drop 2 head @ row # rest)
      = usage_loop usage_start (drop 2 head @ rest)"
    by (simp add: usage_loop_append s split: sum.splits)
  with assms(4) have "usage_of_table (head @ row # rest) = usage_of_table (head @ rest)"
    by (simp add: usage_of_table_def)
  with s show ?thesis by simp
qed

theorem anomalous_row_discarded_witness:
  "active_seconds ''200:00:00'' = Inr 720000
   \<and> usage_of_table [[''PERIOD'', ''ACTIVE''], [''-'', ''-''], [''2021-06-20'', ''1:00:00''],
        [''2021-06-21'', ''200:00:00''], [''2021-06-23'', ''2:00:00'']]
     = Inr ([\<lparr>year = 2021, month = 6, day = 20\<rparr>, \<lparr>year = 2021, month = 6, day = 23\<rparr>], [1, 3])"
proof -
  have a: "active_seconds ''200:00:00'' = Inr 720000" by code_simp
  have e: "usage_of_table [[''PERIOD'', ''ACTIVE''], [''-'', ''-''], [''2021-06-20'', ''1:00:00''],
        [''2021-06-23'', ''2:00:00'']]
     = Inr ([\<lparr>year = 2021, month = 6, day = 20\<rparr>, \<lparr>year = 2021, month = 6, day = 23\<rparr>], [1, 3])"
    by code_simp
  from anomalous_row_discarded
    [of "[''2021-06-21'', ''200:00:00'']" "''200:00:00''" 720000
        "[[''PERIOD'', ''ACTIVE''], [''-'', ''-''], [''2021-06-20'', ''1:00:00'']]"
        usage_start "[[''2021-06-23'', ''2:00:00'']]"] a e
  show ?thesis by (simp add: py_index_def)
qed

text \<open>
  C6, as amended. The value emitted for a kept row is the running total of the active
  seconds of the kept rows so far, divided by 3600 and truncated toward zero at that
  row; dates and values have the same length. Where the running totals are not
  negative, that is the floor of the quotient.
\<close>

theorem usage_hours_truncated:
  assumes "usage_of_table table = Inr (ds, hs)"
  shows "hs = map (\<lambda>t. trunc_div t 3600) (running_totals 0 (kept_seconds (drop 2 table)))
    \<and> length ds = length hs
    \<and> ((\<forall>t\<in>set (running_totals 0 (kept_seconds (drop 2 table))). 0 \<le> t) \<longrightarrow>
         hs = map (\<lambda>t. t div 3600) (running_totals 0 (kept_seconds (drop 2 table))))"
proof -
  note r = usage_of_table_result [OF assms]
  have "map (\<lambda>t. trunc_div t 3600) ts = map (\<lambda>t. t div 3600) ts"
    if "\<forall>t\<in>set ts. 0 \<le> t" for ts
    using that by (simp add: trunc_div_def)
  with r show ?thesis by simp
qed

theorem usage_hours_truncated_witness:
  "usage_of_table [[''PERIOD'', ''ACTIVE''], [''-'', ''-''], [''2021-06-20'', ''1:00:00''],
        [''2021-06-21'', ''2:00:00''], [''2021-06-22'', ''0:30:00'']]
     = Inr ([\<lparr>year = 2021, month = 6, day = 20\<rparr>, \<lparr>year = 2021, month = 6, day = 21\<rparr>,
             \<lparr>year = 2021, month = 6, day = 22\<rparr>], [1, 3, 3])
   \<and> running_totals 0 (kept_seconds (drop 2 [[''PERIOD'', ''ACTIVE''], [''-'', ''-''],
        [''2021-06-20'', ''1:00:00''], [''2021-06-21'', ''2:00:00''],
        [''2021-06-22'', ''0:30:00'']])) = [3600, 10800, 12600]
   \<and> [1, 3, 3] = map (\<lambda>t. t div 3600) [3600, 10800, 12600 :: int]"
proof -
  have e: "usage_of_table [[''PERIOD'', ''ACTIVE''], [''-'', ''-''], [''2021-06-20'', ''1:00:00''],
        [''2021-06-21'', ''2:00:00''], [''2021-06-22'', ''0:30:00'']]
     = Inr ([\<lparr>year = 2021, month = 6, day = 20\<rparr>, \<lparr>year = 2021, month = 6, day = 21\<rparr>,
             \<lparr>year = 2021, month = 6, day = 22\<rparr>], [1, 3, 3])"
    by code_simp
  have k: "running_totals 0 (kept_seconds (drop 2 [[''PERIOD'', ''ACTIVE''], [''-'', ''-''],
        [''2021-06-20'', ''1:00:00''], [''2021-06-21'', ''2:00:00''],
        [''2021-06-22'', ''0:30:00'']])) = [3600, 10800, 12600]"
    by code_simp
  note t = usage_hours_truncated [OF e, unfolded k]
  have "\<forall>t\<in>set [3600, 10800, 12600 :: int]. 0 \<le> t" by simp
  with t have "[1, 3, 3] = map (\<lambda>t. t div 3600) [3600, 10800, 12600 :: int]" by blast
  with e k show ?thesis by blast
qed

text \<open>
  C6 as the specification states it fails: \<^verbatim>\<open>int\<close> of a negative quotient is not its floor. The
  row with the time \<open>0:-30:00\<close> is kept with \<open>-1800\<close> seconds; the value emitted is
  \<open>0\<close>, the floor of \<open>-1800 / 3600\<close> is \<open>-1\<close>.
\<close>

theorem usage_hours_floor_counterexample:
  "usage_of_table [[''PERIOD'', ''ACTIVE''], [''-'', ''-''], [''2021-06-20'', ''0:-30:00'']]
     = Inr ([\<lparr>year = 2021, month = 6, day = 20\<rparr>], [0])
   \<and> kept_seconds [[''2021-06-20'', ''0:-30:00'']] = [- 1800]
   \<and> map (\<lambda>t. t div 3600) (running_totals 0 [- 1800]) = [- 1]"
  by code_simp

lemma kept_seconds_set:
  "x \<in> set (kept_seconds rows) \<Longrightarrow> \<exists>row\<in>set rows. row_seconds row = Some x"
  by (induction rows) (auto split: option.splits)

lemma kept_seconds_nonneg:
  assumes "row_seconds row = Some secs" "nonneg_components (row ! 1)"
  shows "0 \<le> secs"
proof -
  from assms(1) obtain cell where c: "py_index row 1 = Inr cell" "active_seconds cell = Inr secs"
    by (auto simp: row_seconds_def split: sum.splits if_splits)
  from c(1) have cell: "cell = row ! 1" by (auto simp: py_index_def split: if_splits)
  define t where "t = py_split '':'' cell"
  from c(2) obtain a b c' where p: "py_int (t ! 0) = Inr a" "py_int (t ! 1) = Inr b"
    "py_int (t ! 2) = Inr c'" "secs = c' + (b + a * 60) * 60"
    by (auto simp: active_seconds_def and_then_Inr py_index_def t_def [symmetric] split: if_splits)
  from assms(2) cell p(1-3) have "0 \<le> a" "0 \<le> b" "0 \<le> c'"
    by (auto simp: nonneg_components_def nonneg_int_def Let_def t_def)
  with p(4) show ?thesis by simp
qed

lemma running_totals_sorted:
  "\<forall>x\<in>set xs. 0 \<le> x \<Longrightarrow>
   sorted (running_totals a xs) \<and> (\<forall>t\<in>set (running_totals a xs). a \<le> t)"
proof (induction xs arbitrary: a)
  case Nil
  then show ?case by simp
next
  case (Cons x xs)
  from Cons.prems have "0 \<le> x" "\<forall>x\<in>set xs. 0 \<le> x" by simp_all
  from Cons.IH [OF this(2), of "a + x"] this(1) show ?case by fastforce
qed

lemma trunc_div_mono: "a \<le> b \<Longrightarrow> trunc_div a 3600 \<le> trunc_div b 3600"
proof -
  assume ab: "a \<le> b"
  have 1: "x div 3600 \<le> y div 3600" if "x \<le> y" for x y :: int
    using that by (rule zdiv_mono1) simp
  have 2: "0 \<le> x div 3600" if "0 \<le> x" for x :: int
    using that by simp
  show ?thesis
  proof (cases "0 \<le> a")
    case True
    with ab 1 show ?thesis by (simp add: trunc_div_def)
  next
    case False
    show ?thesis
    proof (cases "0 \<le> b")
      case True
      from False 2 [of "- a"] 2 [OF True] have "- ((- a) div 3600) \<le> b div 3600" by simp
      with False True show ?thesis by (simp add: trunc_div_def)
    next
      case b: False
      from ab 1 [of "- b" "- a"] have "- ((- a) div 3600) \<le> - ((- b) div 3600)" by simp
      with False b show ?thesis by (simp add: trunc_div_def)
    qed
  qed
qed

lemma sorted_map_trunc_div: "sorted ts \<Longrightarrow> sorted (map (\<lambda>t. trunc_div t 3600) ts)"
  by (induction ts) (auto intro: trunc_div_mono)

text \<open>
  C9. When the time of every kept row has non-negative integer components, the values
  of the usage series never decrease.
\<close>

theorem usage_hours_nondecreasing:
  assumes "usage_of_table table = Inr (ds, hs)"
    and "\<forall>row\<in>set (drop 2 table). row_seconds row \<noteq> None \<longrightarrow> nonneg_components (row ! 1)"
  shows "sorted hs"
proof -
  have "0 \<le> x" if "x \<in> set (kept_seconds (drop 2 table))" for x
  proof -
    from that obtain row where "row \<in> set (drop 2 table)" "row_seconds row = Some x"
      by (auto dest: kept_seconds_set)
    with assms(2) show ?thesis by (auto intro: kept_seconds_nonneg)
  qed
  then have "sorted (running_totals 0 (kept_seconds (drop 2 table)))"
    using running_totals_sorted [of "kept_seconds (drop 2 table)" 0] by blast
  then show ?thesis
    unfolding usage_of_table_result(1) [OF assms(1)] by (rule sorted_map_trunc_div)
qed

theorem usage_hours_nondecreasing_witness:
  "usage_of_table [[''PERIOD'', ''ACTIVE''], [''-'', ''-''], [''2021-06-20'', ''5:10:00''],
        [''2021-06-21'', ''-''], [''2021-06-22'', ''0:20:00''], [''2021-06-23'', ''0:40:00'']]
     = Inr ([\<lparr>year = 2021, month = 6, day = 20\<rparr>, \<lparr>year = 2021, month = 6, day = 22\<rparr>,
             \<lparr>year = 2021, month = 6, day = 23\<rparr>], [5, 5, 6])
   \<and> sorted [5, 5, 6 :: int]"
proof -
  have e: "usage_of_table [[''PERIOD'', ''ACTIVE''], [''-'', ''-''], [''2021-06-20'', ''5:10:00''],
        [''2021-06-21'', ''-''], [''2021-06-22'', ''0:20:00''], [''2021-06-23'', ''0:40:00'']]
     = Inr ([\<lparr>year = 2021, month = 6, day = 20\<rparr>, \<lparr>year = 2021, month = 6, day = 22\<rparr>,
             \<lparr>year = 2021, month = 6, day = 23\<rparr>], [5, 5, 6])"
    by code_simp
  have h: "\<forall>row\<in>set (drop 2 [[''PERIOD'', ''ACTIVE''], [''-'', ''-''], [''2021-06-20'', ''5:10:00''],
        [''2021-06-21'', ''-''], [''2021-06-22'', ''0:20:00''], [''2021-06-23'', ''0:40:00'']]).
        row_seconds row \<noteq> None \<longrightarrow> nonneg_components (row ! 1)"
    by code_simp
  from usage_hours_nondecreasing [OF e h] e show ?thesis by simp
qed

end
